theory Spec2Isabelle
  imports Complex_Main "HOL-Library.Sublist" "HOL-Library.Log_Nat"
begin

section \<open>JavaScript numbers\<close>

text \<open>
  A JavaScript number is an IEEE 754 binary64 value: a finite double, one of the two
  infinities, or NaN. The finite doubles are the reals \<open>m * 2^e\<close> with \<open>\<bar>m\<bar> < 2^53\<close> and
  \<open>-1074 \<le> e \<le> 971\<close>, and \<open>Num r\<close> stands for the double of value \<open>r\<close>. The two zeros
  are the one value \<open>Num 0\<close>: \<open>===\<close> and the ordering do not tell them apart, a
  template literal prints both as \<open>0\<close>, and the code modelled below never divides by a
  zero.

  Every arithmetic operation returns the exact result rounded to the nearest double,
  ties to the even significand (\<open>fl\<close>). \<open>binade r\<close> is the exponent \<open>e\<close> with
  \<open>2^e \<le> \<bar>r\<bar> < 2^(e+1)\<close>, and \<open>quantum r\<close> the distance between neighbouring doubles at
  \<open>r\<close>, which stays \<open>2^-1074\<close> in the subnormal range. A result that rounds to
  \<open>2^1024\<close> or beyond is an infinity.
\<close>

datatype number = Num real | PosInf | NegInf | NaN

definition round_even :: "real \<Rightarrow> int" where
  "round_even r =
     (let f = \<lfloor>r\<rfloor>; d = r - of_int f
      in if d < 1 / 2 then f else if 1 / 2 < d then f + 1 else if even f then f else f + 1)"

definition binade :: "real \<Rightarrow> int" where
  "binade r =
     (if 1 \<le> \<bar>r\<bar> then bitlen \<lfloor>\<bar>r\<bar>\<rfloor> - 1 else - bitlen (\<lceil>1 / \<bar>r\<bar>\<rceil> - 1))"

definition quantum :: "real \<Rightarrow> real" where
  "quantum r = 2 powi (max (binade r) (- 1022) - 52)"

definition fl :: "real \<Rightarrow> number" where
  "fl r =
     (let q = quantum r; v = of_int (round_even (r / q)) * q
      in if 2 powi 1024 \<le> \<bar>v\<bar> then (if 0 < r then PosInf else NegInf) else Num v)"

text \<open>A real is a double when rounding leaves it alone.\<close>

definition is_double :: "real \<Rightarrow> bool" where
  "is_double r = (fl r = Num r)"

fun finite_number :: "number \<Rightarrow> bool" where
  "finite_number (Num r) = True"
| "finite_number _ = False"

fun value_of :: "number \<Rightarrow> real" where
  "value_of (Num r) = r"
| "value_of _ = 0"

subsection \<open>Arithmetic\<close>

fun fneg :: "number \<Rightarrow> number" where
  "fneg (Num r) = Num (- r)"
| "fneg PosInf = NegInf"
| "fneg NegInf = PosInf"
| "fneg NaN = NaN"

fun fadd :: "number \<Rightarrow> number \<Rightarrow> number" where
  "fadd (Num a) (Num b) = fl (a + b)"
| "fadd NaN _ = NaN"
| "fadd _ NaN = NaN"
| "fadd PosInf NegInf = NaN"
| "fadd NegInf PosInf = NaN"
| "fadd PosInf _ = PosInf"
| "fadd _ PosInf = PosInf"
| "fadd NegInf _ = NegInf"
| "fadd _ NegInf = NegInf"

definition fsub :: "number \<Rightarrow> number \<Rightarrow> number" where
  "fsub a b = fadd a (fneg b)"

text \<open>The sign of a number: 1, -1, or 0 for a zero and for NaN.\<close>

fun sign_of :: "number \<Rightarrow> int" where
  "sign_of (Num r) = (if 0 < r then 1 else if r < 0 then - 1 else 0)"
| "sign_of PosInf = 1"
| "sign_of NegInf = - 1"
| "sign_of NaN = 0"

definition signed_inf :: "int \<Rightarrow> number" where
  "signed_inf s = (if 0 < s then PosInf else if s < 0 then NegInf else NaN)"

fun fmul :: "number \<Rightarrow> number \<Rightarrow> number" where
  "fmul (Num a) (Num b) = fl (a * b)"
| "fmul a b = signed_inf (sign_of a * sign_of b)"

text \<open>
  Division. A zero divisor is taken as the positive zero; no division of the code
  below has a zero divisor.
\<close>

fun fdiv :: "number \<Rightarrow> number \<Rightarrow> number" where
  "fdiv (Num a) (Num b) = (if b = 0 then signed_inf (sign_of (Num a)) else fl (a / b))"
| "fdiv NaN _ = NaN"
| "fdiv _ NaN = NaN"
| "fdiv (Num a) _ = Num 0"
| "fdiv a (Num b) = signed_inf (sign_of a * (if b < 0 then - 1 else 1))"
| "fdiv _ _ = NaN"

fun fsqrt :: "number \<Rightarrow> number" where
  "fsqrt (Num r) = (if r < 0 then NaN else fl (sqrt r))"
| "fsqrt PosInf = PosInf"
| "fsqrt NegInf = NaN"
| "fsqrt NaN = NaN"

fun ffloor :: "number \<Rightarrow> number" where
  "ffloor (Num r) = Num (of_int \<lfloor>r\<rfloor>)"
| "ffloor a = a"

fun fceil :: "number \<Rightarrow> number" where
  "fceil (Num r) = Num (of_int \<lceil>r\<rceil>)"
| "fceil a = a"

fun fabs :: "number \<Rightarrow> number" where
  "fabs (Num r) = Num \<bar>r\<bar>"
| "fabs NegInf = PosInf"
| "fabs a = a"

text \<open>
  The remainder \<open>a % b\<close> has the sign of \<open>a\<close> and is exact: the quotient is truncated
  towards zero and nothing is rounded.
\<close>

definition js_trunc :: "real \<Rightarrow> int" where
  "js_trunc r = (if 0 \<le> r then \<lfloor>r\<rfloor> else \<lceil>r\<rceil>)"

fun frem :: "number \<Rightarrow> number \<Rightarrow> number" where
  "frem (Num a) (Num b) = (if b = 0 then NaN else Num (a - b * of_int (js_trunc (a / b))))"
| "frem NaN _ = NaN"
| "frem _ NaN = NaN"
| "frem (Num a) _ = Num a"
| "frem _ _ = NaN"

subsection \<open>Comparisons\<close>

text \<open>Every comparison with NaN is false, \<open>===\<close> included.\<close>

fun lt :: "number \<Rightarrow> number \<Rightarrow> bool" where
  "lt (Num a) (Num b) = (a < b)"
| "lt NaN _ = False"
| "lt _ NaN = False"
| "lt _ NegInf = False"
| "lt PosInf _ = False"
| "lt _ _ = True"

definition eq_num :: "number \<Rightarrow> number \<Rightarrow> bool" where
  "eq_num a b = (a \<noteq> NaN \<and> a = b)"

definition le :: "number \<Rightarrow> number \<Rightarrow> bool" where
  "le a b = (lt a b \<or> eq_num a b)"

definition gt :: "number \<Rightarrow> number \<Rightarrow> bool" where
  "gt a b = lt b a"

definition ge :: "number \<Rightarrow> number \<Rightarrow> bool" where
  "ge a b = le b a"

text \<open>\<open>Math.max\<close> and \<open>Math.min\<close> of two numbers: NaN as soon as one argument is NaN.\<close>

definition fmax :: "number \<Rightarrow> number \<Rightarrow> number" where
  "fmax a b = (if a = NaN \<or> b = NaN then NaN else if lt a b then b else a)"

definition fmin :: "number \<Rightarrow> number \<Rightarrow> number" where
  "fmin a b = (if a = NaN \<or> b = NaN then NaN else if lt b a then b else a)"

text \<open>\<open>a || b\<close> on an optional number: \<open>b\<close> when \<open>a\<close> is missing, zero or NaN.\<close>

definition truthy :: "number \<Rightarrow> bool" where
  "truthy a = (a \<noteq> NaN \<and> a \<noteq> Num 0)"

definition num_or :: "number option \<Rightarrow> number \<Rightarrow> number" where
  "num_or a b = (case a of None \<Rightarrow> b | Some v \<Rightarrow> if truthy v then v else b)"

subsection \<open>The square root, computed\<close>

text \<open>
  \<open>isqrt n\<close> is the integer square root, and \<open>round_sqrt t\<close> the integer nearest to
  \<open>sqrt t\<close> (ties to even); they make \<open>fl (sqrt r)\<close> computable.
\<close>

function isqrt :: "int \<Rightarrow> int" where
  "isqrt n =
     (if n \<le> 0 then 0
      else let r = 2 * isqrt (n div 4) in if (r + 1) * (r + 1) \<le> n then r + 1 else r)"
  by pat_completeness auto
termination
  by (relation "measure nat") auto

declare isqrt.simps [simp del]

definition round_sqrt :: "real \<Rightarrow> int" where
  "round_sqrt t =
     (let s = isqrt \<lfloor>t\<rfloor>; m = of_int (s * s + s) + 1 / 4
      in if t < m then s else if m < t then s + 1 else if even s then s else s + 1)"

definition fl_sqrt :: "real \<Rightarrow> number" where
  "fl_sqrt r =
     (let q = 2 powi (max (binade r div 2) (- 1022) - 52);
          v = of_int (round_sqrt (r / (q * q))) * q
      in if 2 powi 1024 \<le> \<bar>v\<bar> then PosInf else Num v)"

subsection \<open>Numbers as strings\<close>

text \<open>
  A template literal prints a number with \<open>Number::toString\<close>: the decimal with the
  fewest significant digits \<open>s\<close> (\<open>k\<close> of them, decimal point after the \<open>n\<close>-th) that
  rounds to the number, in positional notation when \<open>-6 < n \<le> 21\<close> and in exponent
  notation otherwise. \<open>dec_exp r\<close> is the \<open>n\<close> with \<open>10^(n-1) \<le> r < 10^n\<close>. Of the decimals
  with \<open>k\<close> digits the two next to \<open>r\<close> are tried; seventeen digits are enough for any
  double.
\<close>

definition digit_char :: "nat \<Rightarrow> char" where
  "digit_char d = char_of (48 + d)"

definition is_digit :: "char \<Rightarrow> bool" where
  "is_digit c = (48 \<le> (of_char c :: nat) \<and> (of_char c :: nat) \<le> 57)"

definition digit_val :: "char \<Rightarrow> nat" where
  "digit_val c = of_char c - 48"

function digits :: "int \<Rightarrow> string" where
  "digits n =
     (if n < 10 then [digit_char (nat n)]
      else digits (n div 10) @ [digit_char (nat (n mod 10))])"
  by pat_completeness auto
termination
  by (relation "measure nat") auto

declare digits.simps [simp del]

definition dec_exp :: "real \<Rightarrow> int" where
  "dec_exp r =
     (if 1 \<le> r then int (length (digits \<lfloor>r\<rfloor>))
      else 1 - int (length (digits (\<lceil>1 / r\<rceil> - 1))))"

definition digits_candidate :: "real \<Rightarrow> int \<Rightarrow> int \<Rightarrow> int option" where
  "digits_candidate r n k =
     (let e = n - k;
          lo = \<lfloor>r / 10 powi e\<rfloor>;
          hi = lo + 1;
          oklo = (fl (of_int lo * 10 powi e) = Num r);
          okhi = (fl (of_int hi * 10 powi e) = Num r);
          dlo = r - of_int lo * 10 powi e;
          dhi = of_int hi * 10 powi e - r
      in if oklo \<and> okhi
         then Some (if dlo < dhi then lo else if dhi < dlo then hi
                    else if even lo then lo else hi)
         else if oklo then Some lo
         else if okhi then Some hi
         else None)"

definition shortest :: "real \<Rightarrow> int \<times> int \<times> int" where
  "shortest r =
     (let n = dec_exp r
      in case List.find (\<lambda>k. digits_candidate r n k \<noteq> None) [1..max 17 n] of
           None \<Rightarrow> (\<lfloor>r / 10 powi (n - 17)\<rfloor>, 17, n)
         | Some k \<Rightarrow>
             (case digits_candidate r n k of
                None \<Rightarrow> (\<lfloor>r / 10 powi (n - 17)\<rfloor>, 17, n)
              | Some s \<Rightarrow> if s = 10 ^ nat k then (1, 1, n + 1) else (s, k, n)))"

definition format_decimal :: "int \<Rightarrow> int \<Rightarrow> int \<Rightarrow> string" where
  "format_decimal s k n =
     (let ds = digits s
      in if k \<le> n \<and> n \<le> 21 then ds @ replicate (nat (n - k)) CHR ''0''
         else if 0 < n \<and> n \<le> 21 then take (nat n) ds @ ''.'' @ drop (nat n) ds
         else if - 6 < n \<and> n \<le> 0 then ''0.'' @ replicate (nat (- n)) CHR ''0'' @ ds
         else
           let e = n - 1;
               ex = (if e < 0 then CHR ''-'' else CHR ''+'') # digits \<bar>e\<bar>
           in if k = 1 then ds @ ''e'' @ ex else hd ds # ''.'' @ tl ds @ ''e'' @ ex)"

definition positive_to_string :: "real \<Rightarrow> string" where
  "positive_to_string r = (case shortest r of (s, k, n) \<Rightarrow> format_decimal s k n)"

fun number_to_string :: "number \<Rightarrow> string" where
  "number_to_string NaN = ''NaN''"
| "number_to_string PosInf = ''Infinity''"
| "number_to_string NegInf = ''-Infinity''"
| "number_to_string (Num r) =
     (if r = 0 then ''0''
      else if r < 0 then CHR ''-'' # positive_to_string (- r)
      else positive_to_string r)"

text \<open>
  \<open>parseInt(ds, 10)\<close> on a run of decimal digits: the integer they denote, rounded to
  the nearest double.
\<close>

definition digits_value :: "string \<Rightarrow> int" where
  "digits_value ds = foldl (\<lambda>acc c. 10 * acc + int (digit_val c)) 0 ds"

definition parse_digits :: "string \<Rightarrow> number" where
  "parse_digits ds = fl (of_int (digits_value ds))"

section \<open>Shared types and utilities (packages/shared/src/index.ts)\<close>

text \<open>
  Coordinates and chunk indices are JavaScript numbers. The fields \<open>min\<close> and \<open>max\<close> of
  a box are named \<open>minp\<close> and \<open>maxp\<close>; \<open>vec3 a b c\<close> is the vector of the three finite
  values \<open>a\<close>, \<open>b\<close>, \<open>c\<close>.
\<close>

type_synonym EntityId = string
type_synonym LayerId = string

record Vec3 =
  x :: number
  y :: number
  z :: number

record AABB =
  minp :: Vec3
  maxp :: Vec3

record ChunkKey =
  layerId :: LayerId
  cx :: number
  cy :: number
  cz :: number

definition vec3 :: "real \<Rightarrow> real \<Rightarrow> real \<Rightarrow> Vec3" where
  "vec3 a b c = \<lparr>x = Num a, y = Num b, z = Num c\<rparr>"

definition Vec3_add :: "Vec3 \<Rightarrow> Vec3 \<Rightarrow> Vec3" where
  "Vec3_add a b = \<lparr>x = fadd (x a) (x b), y = fadd (y a) (y b), z = fadd (z a) (z b)\<rparr>"

definition Vec3_subtract :: "Vec3 \<Rightarrow> Vec3 \<Rightarrow> Vec3" where
  "Vec3_subtract a b = \<lparr>x = fsub (x a) (x b), y = fsub (y a) (y b), z = fsub (z a) (z b)\<rparr>"

definition Vec3_multiply :: "Vec3 \<Rightarrow> number \<Rightarrow> Vec3" where
  "Vec3_multiply v scalar =
     \<lparr>x = fmul (x v) scalar, y = fmul (y v) scalar, z = fmul (z v) scalar\<rparr>"

definition Vec3_length :: "Vec3 \<Rightarrow> number" where
  "Vec3_length v =
     fsqrt (fadd (fadd (fmul (x v) (x v)) (fmul (y v) (y v))) (fmul (z v) (z v)))"

definition Vec3_distance :: "Vec3 \<Rightarrow> Vec3 \<Rightarrow> number" where
  "Vec3_distance a b =
     (let diff = Vec3_subtract a b
      in fsqrt (fadd (fadd (fmul (x diff) (x diff)) (fmul (y diff) (y diff)))
                  (fmul (z diff) (z diff))))"

definition Vec3_normalize :: "Vec3 \<Rightarrow> Vec3" where
  "Vec3_normalize v =
     (let len = Vec3_length v
      in if eq_num len (Num 0) then vec3 0 0 0 else Vec3_multiply v (fdiv (Num 1) len))"

subsection \<open>ChunkUtils: the string form of a chunk key\<close>

definition ChunkUtils_create :: "LayerId \<Rightarrow> number \<Rightarrow> number \<Rightarrow> number \<Rightarrow> ChunkKey" where
  "ChunkUtils_create l a b c = \<lparr>layerId = l, cx = a, cy = b, cz = c\<rparr>"

definition ChunkUtils_toString :: "ChunkKey \<Rightarrow> string" where
  "ChunkUtils_toString key =
     layerId key @ '':'' @ number_to_string (cx key) @ '','' @ number_to_string (cy key)
       @ '','' @ number_to_string (cz key)"

text \<open>
  \<open>fromString\<close> matches \<^verbatim>\<open>^([^:]+):(-?\d+),(-?\d+),(-?\d+)$\<close>. Every group is followed
  by a character outside its own class, so each group is the longest run of its class
  and the match is deterministic. \<open>match_int\<close> reads one \<^verbatim>\<open>(-?\d+)\<close> group and
  returns its \<open>parseInt\<close> value with the unread rest.
\<close>

definition match_int :: "string \<Rightarrow> (number \<times> string) option" where
  "match_int s =
     (let neg = (case s of [] \<Rightarrow> False | c # _ \<Rightarrow> c = CHR ''-'');
          body = (if neg then tl s else s);
          ds = takeWhile is_digit body;
          rest = dropWhile is_digit body
      in if ds = [] then None
         else Some (if neg then fneg (parse_digits ds) else parse_digits ds, rest))"

definition expect_char :: "char \<Rightarrow> string \<Rightarrow> string option" where
  "expect_char c s = (case s of [] \<Rightarrow> None | d # rest \<Rightarrow> if d = c then Some rest else None)"

definition ChunkUtils_fromString :: "string \<Rightarrow> ChunkKey option" where
  "ChunkUtils_fromString str =
     (let layer = takeWhile (\<lambda>c. c \<noteq> CHR '':'') str;
          r0 = dropWhile (\<lambda>c. c \<noteq> CHR '':'') str
      in if layer = [] then None
         else case expect_char CHR '':'' r0 of None \<Rightarrow> None
         | Some r1 \<Rightarrow>
         (case match_int r1 of None \<Rightarrow> None
          | Some (a, r2) \<Rightarrow>
          (case expect_char CHR '','' r2 of None \<Rightarrow> None
           | Some r3 \<Rightarrow>
           (case match_int r3 of None \<Rightarrow> None
            | Some (b, r4) \<Rightarrow>
            (case expect_char CHR '','' r4 of None \<Rightarrow> None
             | Some r5 \<Rightarrow>
             (case match_int r5 of None \<Rightarrow> None
              | Some (c, r6) \<Rightarrow>
                if r6 = [] then Some \<lparr>layerId = layer, cx = a, cy = b, cz = c\<rparr>
                else None))))))"

text \<open>
  An index that is printed in positional notation without a fraction: an integer double
  of magnitude below \<open>10^21\<close>.
\<close>

definition integer_index :: "number \<Rightarrow> bool" where
  "integer_index a =
     (case a of Num r \<Rightarrow> is_double r \<and> r = of_int \<lfloor>r\<rfloor> \<and> \<bar>r\<bar> < 10 ^ 21 | _ \<Rightarrow> False)"

definition ChunkUtils_equals :: "ChunkKey \<Rightarrow> ChunkKey \<Rightarrow> bool" where
  "ChunkUtils_equals a b =
     (layerId a = layerId b \<and> eq_num (cx a) (cx b) \<and> eq_num (cy a) (cy b)
      \<and> eq_num (cz a) (cz b))"


section \<open>Spatial module (world/space.ts)\<close>

text \<open>
  The constants of config.ts at their defaults (no environment override). A decimal
  literal denotes the double nearest to it.
\<close>

definition DEFAULT_CHUNK_SIZE :: number where
  "DEFAULT_CHUNK_SIZE = Num 32"

definition CHUNK_HEIGHT :: number where
  "CHUNK_HEIGHT = Num 256"

definition COLLISION_EPSILON :: number where
  "COLLISION_EPSILON = fl (1 / 1000)"

record LayerConfig =
  layer_id :: LayerId
  layer_name :: string
  chunkSize :: number
  gravity :: number
  spawnPoint :: Vec3

text \<open>The registry's \<open>layers\<close> map; \<open>getLayer\<close> is the lookup.\<close>

type_synonym LayerRegistry = "LayerId \<rightharpoonup> LayerConfig"

definition defaultLayer :: LayerConfig where
  "defaultLayer = \<lparr>layer_id = ''default'', layer_name = ''Default Layer'',
     chunkSize = DEFAULT_CHUNK_SIZE, gravity = fl (- 981 / 100), spawnPoint = vec3 0 10 0\<rparr>"

definition initialLayers :: LayerRegistry where
  "initialLayers = Map.empty(''default'' \<mapsto> defaultLayer)"

definition getChunkSize :: "LayerRegistry \<Rightarrow> LayerId \<Rightarrow> number" where
  "getChunkSize reg l = num_or (map_option chunkSize (reg l)) DEFAULT_CHUNK_SIZE"

text \<open>
  \<open>worldToChunk\<close> divides by the chunk size; its callers below pass a size that went
  through \<open>||\<close>, hence never zero.
\<close>

definition worldToChunk :: "Vec3 \<Rightarrow> number \<Rightarrow> number \<times> number \<times> number" where
  "worldToChunk position csize =
     (ffloor (fdiv (x position) csize), ffloor (fdiv (y position) CHUNK_HEIGHT),
      ffloor (fdiv (z position) csize))"

definition keyFromPos :: "LayerRegistry \<Rightarrow> LayerId \<Rightarrow> Vec3 \<Rightarrow> number option \<Rightarrow> ChunkKey" where
  "keyFromPos reg l position sz =
     (let csize = num_or sz (getChunkSize reg l)
      in case worldToChunk position csize of
           (a, b, c) \<Rightarrow> ChunkUtils_create l a b c)"

text \<open>
  The loop \<^verbatim>\<open>for (let c = lo; c <= hi; c++)\<close> on numbers, collecting the values of
  \<open>c\<close>. It runs forever when \<open>c + 1\<close> rounds back to \<open>c\<close> below \<open>hi\<close> (from \<open>2^53\<close> on)
  or when \<open>c\<close> is \<open>-Infinity\<close>: the value \<open>None\<close>.
\<close>

partial_function (option) count_up :: "number \<Rightarrow> number \<Rightarrow> number list \<Rightarrow> number list option" where
  "count_up c hi acc =
     (if le c hi then count_up (fadd c (Num 1)) hi (acc @ [c]) else Some acc)"

declare count_up.simps [code]

text \<open>
  \<open>getIntersectingChunks\<close>. The bounds of the two inner loops do not depend on the
  outer loop variables, so the three ranges are computed one after the other; an inner
  loop is only entered when the loops around it have an iteration.
\<close>

definition getIntersectingChunks ::
  "LayerRegistry \<Rightarrow> LayerId \<Rightarrow> AABB \<Rightarrow> number option \<Rightarrow> ChunkKey list option" where
  "getIntersectingChunks reg l bounds csize =
     (let sz = num_or csize (getChunkSize reg l);
          maxExclusive =
            \<lparr>x = fmax (x (minp bounds)) (fsub (x (maxp bounds)) (fl (1 / 1000000))),
             y = fmax (y (minp bounds)) (fsub (y (maxp bounds)) (fl (1 / 1000000))),
             z = fmax (z (minp bounds)) (fsub (z (maxp bounds)) (fl (1 / 1000000)))\<rparr>;
          minChunk = worldToChunk (minp bounds) sz;
          maxChunk = worldToChunk maxExclusive sz;
          spanX = fsub (x (maxp bounds)) (x (minp bounds));
          spanZ = fsub (z (maxp bounds)) (z (minp bounds));
          clampX = (lt (x (minp bounds)) (Num 0) \<and> gt (x (maxp bounds)) (Num 0) \<and> lt spanX sz);
          clampZ = (lt (z (minp bounds)) (Num 0) \<and> gt (z (maxp bounds)) (Num 0) \<and> lt spanZ sz);
          minCx = (if clampX then Num 0 else fst minChunk);
          maxCx = (if clampX then Num 0 else fst maxChunk);
          minCy = fst (snd minChunk);
          maxCy = fst (snd maxChunk);
          minCz = (if clampZ then Num 0 else snd (snd minChunk));
          maxCz = (if clampZ then Num 0 else snd (snd maxChunk))
      in case count_up minCx maxCx [] of None \<Rightarrow> None
         | Some xs \<Rightarrow>
           if xs = [] then Some []
           else (case count_up minCy maxCy [] of None \<Rightarrow> None
                 | Some ys \<Rightarrow>
                   if ys = [] then Some []
                   else (case count_up minCz maxCz [] of None \<Rightarrow> None
                         | Some zs \<Rightarrow>
                             Some (concat (map (\<lambda>a. concat (map (\<lambda>b.
                                     map (\<lambda>c. ChunkUtils_create l a b c) zs) ys)) xs)))))"

text \<open>
  \<open>getNeighboringChunks\<close>. The radius is a small integer in every call of the code (1
  by default and in the movement system), so the offsets are the integers from
  \<open>-radius\<close> to \<open>radius\<close>.
\<close>

definition getNeighboringChunks :: "ChunkKey \<Rightarrow> int \<Rightarrow> ChunkKey list" where
  "getNeighboringChunks centerChunk radius =
     concat (map (\<lambda>dx. concat (map (\<lambda>dy. map (\<lambda>dz.
         ChunkUtils_create (layerId centerChunk)
           (fadd (cx centerChunk) (Num (of_int dx)))
           (fadd (cy centerChunk) (Num (of_int dy)))
           (fadd (cz centerChunk) (Num (of_int dz))))
       [- radius..radius]) [- radius..radius])) [- radius..radius])"


section \<open>Contracts and their schemas (world/contracts.ts)\<close>

text \<open>
  A contract is a record tagged by its \<open>type\<close> field. \<open>Other t\<close> stands for an object
  whose tag \<open>t\<close> is none of the fourteen registered ones. The values of
  \<open>properties\<close> are opaque (\<open>z.any()\<close>). Vectors and the two scalars of a mobility,
  on which the movement system computes, are JavaScript numbers. The other scalar
  fields are finite numbers, kept as reals: the store only compares them, and the
  durability system is followed on values where its arithmetic is exact.
\<close>

datatype contract =
    Identity (ident: string) (name: "string option") (description: "string option")
  | Mobility (position: Vec3) (velocity: "Vec3 option") (maxSpeed: "number option")
      (acceleration: "number option")
  | Shape (bounds: AABB) (geometry: "string option")
  | Visual (visible: bool) (color: "string option") (texture: "string option")
      (material: "string option")
  | Solidity (solid: bool) (collisionLayers: "string list option")
  | Entrance (targetLayerId: string) (targetPosition: Vec3) (enabled: bool)
  | Portable (canPickup: bool) (weight: "real option")
  | Inventory (items: "string list") (capacity: "real option")
  | Durability (health: real) (maxHealth: real) (armor: "real option")
  | ContractLimit (limits: "(string \<times> real) list")
  | MovementRules (stepDistance: real) (allowDiagonal: "bool option")
      (diagonalNormalized: "bool option")
  | WorldConditions (wc_gravity: "real option") (weather: "string option")
      (timeOfDay: "string option") (terrainSeed: "string option")
      (properties: "(string \<times> string) list option")
  | WorldCommands (commands: "string list")
  | CommandAccess (allowed: "string list")
  | Other (other_type: string)

fun contract_type :: "contract \<Rightarrow> string" where
  "contract_type (Identity _ _ _) = ''identity''"
| "contract_type (Mobility _ _ _ _) = ''mobility''"
| "contract_type (Shape _ _) = ''shape''"
| "contract_type (Visual _ _ _ _) = ''visual''"
| "contract_type (Solidity _ _) = ''solidity''"
| "contract_type (Entrance _ _ _) = ''entrance''"
| "contract_type (Portable _ _) = ''portable''"
| "contract_type (Inventory _ _) = ''inventory''"
| "contract_type (Durability _ _ _) = ''durability''"
| "contract_type (ContractLimit _) = ''contract_limit''"
| "contract_type (MovementRules _ _ _) = ''movement_rules''"
| "contract_type (WorldConditions _ _ _ _ _) = ''world_conditions''"
| "contract_type (WorldCommands _) = ''world_commands''"
| "contract_type (CommandAccess _) = ''command_access''"
| "contract_type (Other t) = t"

datatype error =
    EntityAlreadyExists
  | EntityDoesNotExist
  | InvalidContract
  | ContractLimitViolation
  | InvalidChunkKey

text \<open>
  \<open>z.number()\<close> rejects NaN and nothing else, so \<open>Vec3Schema\<close> and \<open>AABBSchema\<close> ask
  for components other than NaN.
\<close>

definition Vec3Schema :: "Vec3 \<Rightarrow> bool" where
  "Vec3Schema v = (x v \<noteq> NaN \<and> y v \<noteq> NaN \<and> z v \<noteq> NaN)"

definition AABBSchema :: "AABB \<Rightarrow> bool" where
  "AABBSchema b = (Vec3Schema (minp b) \<and> Vec3Schema (maxp b))"

text \<open>\<open>z.number().positive().optional()\<close> and \<open>z.number().nonnegative().optional()\<close>.\<close>

definition opt_positive_number :: "number option \<Rightarrow> bool" where
  "opt_positive_number v = (case v of None \<Rightarrow> True | Some r \<Rightarrow> gt r (Num 0))"

definition opt_positive :: "real option \<Rightarrow> bool" where
  "opt_positive v = (case v of None \<Rightarrow> True | Some r \<Rightarrow> 0 < r)"

definition opt_nonnegative :: "real option \<Rightarrow> bool" where
  "opt_nonnegative v = (case v of None \<Rightarrow> True | Some r \<Rightarrow> 0 \<le> r)"

definition opt_enum :: "string list \<Rightarrow> string option \<Rightarrow> bool" where
  "opt_enum vs v = (case v of None \<Rightarrow> True | Some s \<Rightarrow> s \<in> set vs)"

text \<open>
  \<open>DurabilityObjectSchema\<close> is the base object; \<open>DurabilitySchema\<close> refines it with
  \<open>health \<le> maxHealth\<close> and is the schema stored under \<open>'durability'\<close> in the
  registry's \<open>schemas\<close> map.
\<close>

definition DurabilityObjectSchema :: "real \<Rightarrow> real \<Rightarrow> real option \<Rightarrow> bool" where
  "DurabilityObjectSchema h m a = (0 \<le> h \<and> 0 < m \<and> opt_nonnegative a)"

definition DurabilitySchema :: "real \<Rightarrow> real \<Rightarrow> real option \<Rightarrow> bool" where
  "DurabilitySchema h m a = (DurabilityObjectSchema h m a \<and> h \<le> m)"

text \<open>
  \<open>AnyContractSchema.parse\<close>: the discriminated union over the fourteen object
  schemas, with \<open>DurabilityObjectSchema\<close> in the durability slot. It returns the parsed
  record, in which the defaults of \<open>movement_rules\<close> are filled in.
\<close>

fun AnyContractSchema_parse :: "contract \<Rightarrow> contract option" where
  "AnyContractSchema_parse (Identity i n d) = Some (Identity i n d)"
| "AnyContractSchema_parse (Mobility p v ms acc) =
     (if Vec3Schema p \<and> (case v of None \<Rightarrow> True | Some u \<Rightarrow> Vec3Schema u)
         \<and> opt_positive_number ms \<and> opt_positive_number acc
      then Some (Mobility p v ms acc) else None)"
| "AnyContractSchema_parse (Shape b g) =
     (if AABBSchema b \<and> opt_enum [''box'', ''sphere'', ''cylinder'', ''mesh''] g
      then Some (Shape b g) else None)"
| "AnyContractSchema_parse (Visual v c t m) = Some (Visual v c t m)"
| "AnyContractSchema_parse (Solidity s ls) = Some (Solidity s ls)"
| "AnyContractSchema_parse (Entrance l p e) =
     (if Vec3Schema p then Some (Entrance l p e) else None)"
| "AnyContractSchema_parse (Portable c w) =
     (if opt_nonnegative w then Some (Portable c w) else None)"
| "AnyContractSchema_parse (Inventory is c) =
     (if opt_positive c then Some (Inventory is c) else None)"
| "AnyContractSchema_parse (Durability h m a) =
     (if DurabilityObjectSchema h m a then Some (Durability h m a) else None)"
| "AnyContractSchema_parse (ContractLimit ls) =
     (if list_all (\<lambda>l. 0 < snd l) ls then Some (ContractLimit ls) else None)"
| "AnyContractSchema_parse (MovementRules s ad dn) =
     (if 0 < s
      then Some (MovementRules s (Some (case ad of None \<Rightarrow> True | Some b \<Rightarrow> b))
                   (Some (case dn of None \<Rightarrow> True | Some b \<Rightarrow> b)))
      else None)"
| "AnyContractSchema_parse (WorldConditions g w t s ps) =
     (if opt_enum [''clear'', ''rain'', ''storm'', ''snow''] w
         \<and> opt_enum [''day'', ''night'', ''dawn'', ''dusk''] t
      then Some (WorldConditions g w t s ps) else None)"
| "AnyContractSchema_parse (WorldCommands cs) = Some (WorldCommands cs)"
| "AnyContractSchema_parse (CommandAccess as) = Some (CommandAccess as)"
| "AnyContractSchema_parse (Other t) = None"

text \<open>\<open>ContractRegistry.validate\<close>: \<open>Inr\<close> is \<open>{success: true, data}\<close>.\<close>

definition validate :: "contract \<Rightarrow> error + contract" where
  "validate c = (case AnyContractSchema_parse c of Some v \<Rightarrow> Inr v | None \<Rightarrow> Inl InvalidContract)"

text \<open>\<open>initializeDefaultLimits\<close>: the registry's \<open>globalLimits\<close> map.\<close>

definition globalLimits :: "string \<rightharpoonup> real" where
  "globalLimits = map_of
     [(''identity'', 1), (''mobility'', 1), (''shape'', 1), (''visual'', 1),
      (''solidity'', 1), (''inventory'', 1), (''durability'', 1), (''contract_limit'', 1),
      (''entrance'', 1), (''portable'', 3), (''movement_rules'', 1),
      (''world_conditions'', 1), (''world_commands'', 1), (''command_access'', 1)]"

text \<open>
  The \<open>limits\<close> of an optional contract-limit contract (\<open>entityContractLimit?.limits\<close>).
\<close>

definition limits_of :: "contract option \<Rightarrow> (string \<times> real) list option" where
  "limits_of clc = (case clc of Some (ContractLimit ls) \<Rightarrow> Some ls | _ \<Rightarrow> None)"

definition checkLimits :: "string \<Rightarrow> contract list \<Rightarrow> contract option \<Rightarrow> bool" where
  "checkLimits contractType existingContracts entityContractLimit =
     (let entityLimits = (case limits_of entityContractLimit of None \<Rightarrow> [] | Some ls \<Rightarrow> ls);
          currentCount = length (filter (\<lambda>c. contract_type c = contractType) existingContracts)
      in case find (\<lambda>l. fst l = contractType) entityLimits of
           Some entityLimit \<Rightarrow> \<not> (real currentCount \<ge> snd entityLimit)
         | None \<Rightarrow>
           (case globalLimits contractType of
              Some globalLimit \<Rightarrow> \<not> (real currentCount \<ge> globalLimit)
            | None \<Rightarrow> True))"

section \<open>Entity store (world/ecs.ts)\<close>

text \<open>
  \<open>entities\<close> maps an id to its contracts in insertion order (a JavaScript \<open>Set\<close> of
  freshly parsed objects, so adding appends and deleting removes one element).
  \<open>contractIndex\<close> maps a contract type to the ids carrying it, in insertion order and
  without duplicates. Hooks are callbacks that do not write to the store; each call
  site is recorded in \<open>hookLog\<close>.
\<close>

datatype hook_event =
    EntityAddHook EntityId
  | EntityRemoveHook EntityId
  | ContractAddHook EntityId contract
  | ContractRemoveHook EntityId contract

record ECSWorld =
  entities :: "EntityId \<rightharpoonup> contract list"
  contractIndex :: "string \<rightharpoonup> EntityId list"
  hookLog :: "hook_event list"

definition createECSWorld :: ECSWorld where
  "createECSWorld = \<lparr>entities = Map.empty, contractIndex = Map.empty, hookLog = []\<rparr>"

text \<open>
  The outcome of a call that may throw or spin: the state is kept in either case of
  termination, since an exception leaves the writes made so far in place.
\<close>

datatype ('a, 's) outcome = Returns 'a 's | Throws error 's | Diverges

definition hasEntity :: "ECSWorld \<Rightarrow> EntityId \<Rightarrow> bool" where
  "hasEntity w e = (entities w e \<noteq> None)"

definition getContract :: "ECSWorld \<Rightarrow> EntityId \<Rightarrow> string \<Rightarrow> contract option" where
  "getContract w e contractType =
     (case entities w e of None \<Rightarrow> None
      | Some contracts \<Rightarrow> find (\<lambda>c. contract_type c = contractType) contracts)"

definition getContracts :: "ECSWorld \<Rightarrow> EntityId \<Rightarrow> contract list" where
  "getContracts w e = (case entities w e of None \<Rightarrow> [] | Some contracts \<Rightarrow> contracts)"

definition hasContract :: "ECSWorld \<Rightarrow> EntityId \<Rightarrow> string \<Rightarrow> bool" where
  "hasContract w e contractType = (getContract w e contractType \<noteq> None)"

definition getEntitiesWithContract :: "ECSWorld \<Rightarrow> string \<Rightarrow> EntityId list" where
  "getEntitiesWithContract w contractType =
     (case contractIndex w contractType of None \<Rightarrow> [] | Some es \<Rightarrow> es)"

definition removeContractInternal :: "EntityId \<Rightarrow> contract \<Rightarrow> ECSWorld \<Rightarrow> bool \<times> ECSWorld" where
  "removeContractInternal e c w =
     (case entities w e of None \<Rightarrow> (False, w)
      | Some contracts \<Rightarrow>
        if c \<notin> set contracts then (False, w)
        else
          let w1 = w\<lparr>entities := (entities w)(e \<mapsto> remove1 c contracts)\<rparr>;
              w2 = (case contractIndex w1 (contract_type c) of None \<Rightarrow> w1
                    | Some es \<Rightarrow>
                      let es' = removeAll e es
                      in if es' = []
                         then w1\<lparr>contractIndex := (contractIndex w1)(contract_type c := None)\<rparr>
                         else w1\<lparr>contractIndex := (contractIndex w1)(contract_type c \<mapsto> es')\<rparr>)
          in (True, w2\<lparr>hookLog := hookLog w2 @ [ContractRemoveHook e c]\<rparr>))"

definition MAX_SAFE_INTEGER :: real where
  "MAX_SAFE_INTEGER = 9007199254740991"

definition getMaxContractsAllowed :: "string \<Rightarrow> contract option \<Rightarrow> real" where
  "getMaxContractsAllowed contractType contractLimitContract =
     (case (case limits_of contractLimitContract of None \<Rightarrow> None
            | Some ls \<Rightarrow> find (\<lambda>l. fst l = contractType) ls) of
        Some entityLimit \<Rightarrow> snd entityLimit
      | None \<Rightarrow>
        (case globalLimits contractType of
           Some globalLimit \<Rightarrow> globalLimit
         | None \<Rightarrow> MAX_SAFE_INTEGER))"

text \<open>
  The eviction loop of \<open>addContract\<close>:
  \<^verbatim>\<open>while (existingOfSameType.length >= maxAllowed) { shift(); removeContractInternal }\<close>.
  On the empty array \<open>shift\<close> yields \<open>undefined\<close> and the body does nothing, so with
  \<open>maxAllowed \<le> 0\<close> the loop never ends: the value \<open>None\<close>.
\<close>

partial_function (option) evict_loop ::
  "EntityId \<Rightarrow> real \<Rightarrow> contract list \<Rightarrow> ECSWorld \<Rightarrow> ECSWorld option" where
  "evict_loop e maxAllowed existingOfSameType w =
     (if real (length existingOfSameType) \<ge> maxAllowed
      then (case existingOfSameType of
              [] \<Rightarrow> evict_loop e maxAllowed [] w
            | oldestContract # rest \<Rightarrow>
                evict_loop e maxAllowed rest (snd (removeContractInternal e oldestContract w)))
      else Some w)"

declare evict_loop.simps [code]

definition index_add :: "string \<Rightarrow> EntityId \<Rightarrow> ECSWorld \<Rightarrow> ECSWorld" where
  "index_add contractType e w =
     (let entitiesWithContract = (case contractIndex w contractType of None \<Rightarrow> [] | Some es \<Rightarrow> es)
      in w\<lparr>contractIndex := (contractIndex w)(contractType \<mapsto>
             (if e \<in> set entitiesWithContract then entitiesWithContract
              else entitiesWithContract @ [e]))\<rparr>)"

definition addContract :: "EntityId \<Rightarrow> contract \<Rightarrow> ECSWorld \<Rightarrow> (unit, ECSWorld) outcome" where
  "addContract e c w =
     (case entities w e of None \<Rightarrow> Throws EntityDoesNotExist w
      | Some contracts \<Rightarrow>
        (case validate c of Inl err \<Rightarrow> Throws InvalidContract w
         | Inr validContract \<Rightarrow>
           let contractLimitContract = getContract w e ''contract_limit'';
               existingOfSameType =
                 filter (\<lambda>d. contract_type d = contract_type validContract) contracts;
               maxAllowed =
                 getMaxContractsAllowed (contract_type validContract) contractLimitContract
           in case evict_loop e maxAllowed existingOfSameType w of None \<Rightarrow> Diverges
              | Some w1 \<Rightarrow>
                let existingContracts = getContracts w1 e
                in if \<not> checkLimits (contract_type validContract) existingContracts
                         contractLimitContract
                   then Throws ContractLimitViolation w1
                   else
                     let w2 = w1\<lparr>entities := (entities w1)(e \<mapsto> existingContracts @ [validContract])\<rparr>;
                         w3 = index_add (contract_type validContract) e w2
                     in Returns () (w3\<lparr>hookLog := hookLog w3 @ [ContractAddHook e validContract]\<rparr>)))"

fun addContracts :: "EntityId \<Rightarrow> contract list \<Rightarrow> ECSWorld \<Rightarrow> (unit, ECSWorld) outcome" where
  "addContracts e [] w = Returns () w"
| "addContracts e (c # cs) w =
     (case addContract e c w of
        Returns _ w' \<Rightarrow> addContracts e cs w'
      | Throws err w' \<Rightarrow> Throws err w'
      | Diverges \<Rightarrow> Diverges)"

definition createEntity :: "EntityId \<Rightarrow> contract list \<Rightarrow> ECSWorld \<Rightarrow> (EntityId, ECSWorld) outcome" where
  "createEntity e contracts w =
     (if entities w e \<noteq> None then Throws EntityAlreadyExists w
      else case addContracts e contracts (w\<lparr>entities := (entities w)(e \<mapsto> [])\<rparr>) of
             Returns _ w' \<Rightarrow> Returns e (w'\<lparr>hookLog := hookLog w' @ [EntityAddHook e]\<rparr>)
           | Throws err w' \<Rightarrow> Throws err w'
           | Diverges \<Rightarrow> Diverges)"

definition removeEntity :: "EntityId \<Rightarrow> ECSWorld \<Rightarrow> bool \<times> ECSWorld" where
  "removeEntity e w =
     (case entities w e of None \<Rightarrow> (False, w)
      | Some contracts \<Rightarrow>
        let w1 = foldl (\<lambda>v c. snd (removeContractInternal e c v)) w contracts;
            w2 = w1\<lparr>entities := (entities w1)(e := None)\<rparr>
        in (True, w2\<lparr>hookLog := hookLog w2 @ [EntityRemoveHook e]\<rparr>))"

definition removeContract :: "EntityId \<Rightarrow> string \<Rightarrow> ECSWorld \<Rightarrow> bool \<times> ECSWorld" where
  "removeContract e contractType w =
     (case getContract w e contractType of None \<Rightarrow> (False, w)
      | Some c \<Rightarrow> removeContractInternal e c w)"


section \<open>Durability system (world/systems/durability.ts)\<close>

text \<open>
  \<open>Date.now()\<close> is the parameter \<open>now\<close>. Nothing in the repository registers a
  damage, heal or destroy handler, so the handler lists are empty and their loops are
  left out.
\<close>

datatype destroy_cause = CauseDamage | CauseCommand | CauseTimeout

record DamageEvent =
  dmg_entityId :: EntityId
  dmg_damage :: real
  dmg_source :: "EntityId option"
  dmg_timestamp :: nat

record DestroyEvent =
  dst_entityId :: EntityId
  dst_cause :: destroy_cause
  dst_source :: "EntityId option"
  dst_timestamp :: nat

record BasicDurabilitySystem =
  dur_ecsWorld :: ECSWorld
  damageEvents :: "DamageEvent list"
  destroyEvents :: "DestroyEvent list"

definition calculateActualDamage :: "real \<Rightarrow> real option \<Rightarrow> real" where
  "calculateActualDamage damage armr =
     (case armr of None \<Rightarrow> damage
      | Some a \<Rightarrow>
        if a = 0 \<or> a \<le> 0 then damage
        else let damageReduction = min (75 / 100) (a * (1 / 100))
             in damage * (1 - damageReduction))"

definition destroyEntity ::
  "EntityId \<Rightarrow> destroy_cause \<Rightarrow> EntityId option \<Rightarrow> nat \<Rightarrow> BasicDurabilitySystem
     \<Rightarrow> BasicDurabilitySystem" where
  "destroyEntity e cause source now sys =
     (let destroyEvent = \<lparr>dst_entityId = e, dst_cause = cause, dst_source = source,
                            dst_timestamp = now\<rparr>;
          sys1 = sys\<lparr>destroyEvents := destroyEvents sys @ [destroyEvent]\<rparr>
      in sys1\<lparr>dur_ecsWorld := snd (removeEntity e (dur_ecsWorld sys1))\<rparr>)"

text \<open>
  \<open>damage\<close>. The contract found under \<open>'durability'\<close> is a durability record; the
  last case of the match cannot occur.
\<close>

definition damage ::
  "EntityId \<Rightarrow> real \<Rightarrow> EntityId option \<Rightarrow> nat \<Rightarrow> BasicDurabilitySystem
     \<Rightarrow> (bool, BasicDurabilitySystem) outcome" where
  "damage e amount source now sys =
     (case getContract (dur_ecsWorld sys) e ''durability'' of
        None \<Rightarrow> Returns False sys
      | Some (Durability h m a) \<Rightarrow>
          let actualDamage = calculateActualDamage amount a
          in if actualDamage \<le> 0 then Returns False sys
             else
               let newHealth = max 0 (h - actualDamage);
                   damageEvent = \<lparr>dmg_entityId = e, dmg_damage = actualDamage,
                                   dmg_source = source, dmg_timestamp = now\<rparr>;
                   sys1 = sys\<lparr>damageEvents := damageEvents sys @ [damageEvent]\<rparr>;
                   updatedDurability = Durability newHealth m a
               in case addContract e updatedDurability (dur_ecsWorld sys1) of
                    Throws err w' \<Rightarrow> Throws err (sys1\<lparr>dur_ecsWorld := w'\<rparr>)
                  | Diverges \<Rightarrow> Diverges
                  | Returns _ w' \<Rightarrow>
                      let sys2 = sys1\<lparr>dur_ecsWorld := w'\<rparr>
                      in Returns True
                           (if newHealth \<le> 0 then destroyEntity e CauseDamage source now sys2
                            else sys2)
      | Some _ \<Rightarrow> Returns False sys)"

section \<open>Chunk manager (world/chunks.ts)\<close>

text \<open>
  The part of the chunk manager that movement reads: the chunk map, keyed by the string
  form of the chunk key, and the static occupancy grid. Subscriptions are kept as opaque
  session handles.
\<close>

record SolidGrid =
  width :: int
  height :: int
  depth :: int
  data :: "nat list"

record Chunk =
  key :: ChunkKey
  chunk_entities :: "EntityId list"
  loaded :: bool
  lastAccessed :: nat
  subscriptions :: "nat list"
  lastModified :: nat
  version :: nat
  solidGrid :: "SolidGrid option"

type_synonym ChunkManager = "string \<rightharpoonup> Chunk"

definition getChunk :: "ChunkKey \<Rightarrow> nat \<Rightarrow> ChunkManager \<Rightarrow> Chunk \<times> ChunkManager" where
  "getChunk chunkKey now chunks =
     (let keyStr = ChunkUtils_toString chunkKey
      in case chunks keyStr of
           None \<Rightarrow>
             let chunk = \<lparr>key = chunkKey, chunk_entities = [], loaded = False,
                           lastAccessed = now, subscriptions = [], lastModified = now,
                           version = 1, solidGrid = None\<rparr>
             in (chunk, chunks(keyStr \<mapsto> chunk))
         | Some chunk \<Rightarrow>
             let chunk' = chunk\<lparr>lastAccessed := now\<rparr>
             in (chunk', chunks(keyStr \<mapsto> chunk')))"

text \<open>Reading a typed array outside its length gives \<open>undefined\<close>, which is not 1.\<close>

definition isSolid :: "Chunk \<Rightarrow> int \<Rightarrow> int \<Rightarrow> int \<Rightarrow> bool" where
  "isSolid chunk gx gy gz =
     (case solidGrid chunk of None \<Rightarrow> False
      | Some g \<Rightarrow>
        if gx < 0 \<or> gx \<ge> width g \<or> gy < 0 \<or> gy \<ge> height g \<or> gz < 0 \<or> gz \<ge> depth g
        then False
        else let index = nat (gx + gy * width g + gz * width g * height g)
             in index < length (data g) \<and> data g ! index = 1)"

section \<open>Movement system (world/systems/movement.js)\<close>

record MoveResult =
  ok :: bool
  result_position :: Vec3
  blockedReason :: "string option"
  collisionNormal :: "Vec3 option"

record CollisionInfo =
  hit :: bool
  point :: Vec3
  normal :: Vec3
  distance :: number
  entityId :: "EntityId option"

record SweepResult =
  sweep_hit :: bool
  sweep_t :: number
  sweep_normal :: Vec3

record BasicMovementSystem =
  ecsWorld :: ECSWorld
  chunkManager :: ChunkManager
  layerRegistry :: LayerRegistry

definition getEntityAABB :: "AABB \<Rightarrow> Vec3 \<Rightarrow> AABB" where
  "getEntityAABB shape_bounds pos =
     \<lparr>minp = Vec3_add (minp shape_bounds) pos, maxp = Vec3_add (maxp shape_bounds) pos\<rparr>"

text \<open>A \<open>Set\<close> of strings keeps the first insertion of each element.\<close>

definition set_add :: "'a list \<Rightarrow> 'a \<Rightarrow> 'a list" where
  "set_add xs a = (if a \<in> set xs then xs else xs @ [a])"

text \<open>
  \<open>getChunksForMovement\<close> collects the string forms of the chunk keys in a \<open>Set\<close> and
  parses them back; a string that \<open>fromString\<close> does not accept throws
  \<open>Invalid chunk key\<close>.
\<close>

fun parse_keys :: "string list \<Rightarrow> error + ChunkKey list" where
  "parse_keys [] = Inr []"
| "parse_keys (keyStr # rest) =
     (case ChunkUtils_fromString keyStr of None \<Rightarrow> Inl InvalidChunkKey
      | Some k \<Rightarrow> (case parse_keys rest of Inl err \<Rightarrow> Inl err | Inr ks \<Rightarrow> Inr (k # ks)))"

definition getChunksForMovement :: "LayerRegistry \<Rightarrow> Vec3 \<Rightarrow> Vec3 \<Rightarrow> error + ChunkKey list" where
  "getChunksForMovement reg startPos endPos =
     (let startChunk = keyFromPos reg ''default'' startPos None;
          endChunk = keyFromPos reg ''default'' endPos None;
          chunks = foldl set_add []
                     (ChunkUtils_toString startChunk # ChunkUtils_toString endChunk
                        # map ChunkUtils_toString (getNeighboringChunks startChunk 1))
      in parse_keys chunks)"

definition no_hit :: "AABB \<Rightarrow> Vec3 \<Rightarrow> CollisionInfo" where
  "no_hit movingAABB displacement =
     \<lparr>hit = False, point = Vec3_add (minp movingAABB) displacement, normal = vec3 0 1 0,
      distance = Vec3_length displacement, entityId = None\<rparr>"

text \<open>
  The cells visited by \<^verbatim>\<open>for (let g = lo; g < hi; g++)\<close> where \<open>lo\<close> is
  \<open>Math.max(0, ...)\<close> of a floor and \<open>hi\<close> is \<open>Math.min(gridRes, ...)\<close> of a ceiling:
  none when a bound is NaN, when \<open>lo\<close> is \<open>Infinity\<close> or when \<open>hi\<close> is \<open>-Infinity\<close>, and
  the integers from \<open>lo\<close> up to but excluding \<open>hi\<close> otherwise.
\<close>

definition grid_range :: "number \<Rightarrow> number \<Rightarrow> int list" where
  "grid_range lo hi =
     (case (lo, hi) of (Num a, Num b) \<Rightarrow> [\<lceil>a\<rceil>..\<lceil>b\<rceil> - 1] | _ \<Rightarrow> [])"

text \<open>
  \<open>checkStaticSolids\<close>: the three nested loops return at the first solid cell, and the
  value returned does not depend on the cell, so they are an existence test over the
  index ranges. The grid resolution \<open>width\<close> is an integer.
\<close>

definition checkStaticSolids ::
  "AABB \<Rightarrow> Vec3 \<Rightarrow> ChunkKey \<Rightarrow> nat \<Rightarrow> ChunkManager \<Rightarrow> CollisionInfo \<times> ChunkManager" where
  "checkStaticSolids movingAABB displacement chunkKey now cm =
     (case getChunk chunkKey now cm of
        (chunk, cm') \<Rightarrow>
          (case solidGrid chunk of
             None \<Rightarrow> (no_hit movingAABB displacement, cm')
           | Some g \<Rightarrow>
             let endAABB = \<lparr>minp = Vec3_add (minp movingAABB) displacement,
                             maxp = Vec3_add (maxp movingAABB) displacement\<rparr>;
                 gridRes = Num (of_int (width g));
                 csize = Num 32;
                 minGridX = ffloor (fmul (fdiv (frem (x (minp endAABB)) csize) csize) gridRes);
                 maxGridX = fceil (fmul (fdiv (frem (x (maxp endAABB)) csize) csize) gridRes);
                 minGridY = ffloor (fmul (fdiv (frem (y (minp endAABB)) (Num 256)) (Num 256))
                                      gridRes);
                 maxGridY = fceil (fmul (fdiv (frem (y (maxp endAABB)) (Num 256)) (Num 256))
                                     gridRes);
                 minGridZ = ffloor (fmul (fdiv (frem (z (minp endAABB)) csize) csize) gridRes);
                 maxGridZ = fceil (fmul (fdiv (frem (z (maxp endAABB)) csize) csize) gridRes)
             in if list_ex (\<lambda>gx. list_ex (\<lambda>gy. list_ex (\<lambda>gz. isSolid chunk gx gy gz)
                                (grid_range (fmax (Num 0) minGridZ) (fmin gridRes maxGridZ)))
                              (grid_range (fmax (Num 0) minGridY) (fmin gridRes maxGridY)))
                    (grid_range (fmax (Num 0) minGridX) (fmin gridRes maxGridX))
                then (\<lparr>hit = True, point = minp endAABB, normal = vec3 0 1 0,
                       distance = fmul (Vec3_length displacement) (Num (1 / 2)),
                       entityId = None\<rparr>, cm')
                else (no_hit movingAABB displacement, cm')))"

datatype axis = AxisX | AxisY | AxisZ

fun comp :: "axis \<Rightarrow> Vec3 \<Rightarrow> number" where
  "comp AxisX v = x v"
| "comp AxisY v = y v"
| "comp AxisZ v = z v"

fun entry_normal :: "axis \<Rightarrow> number \<Rightarrow> Vec3" where
  "entry_normal AxisX d = vec3 (if gt d (Num 0) then - 1 else 1) 0 0"
| "entry_normal AxisY d = vec3 0 (if gt d (Num 0) then - 1 else 1) 0"
| "entry_normal AxisZ d = vec3 0 0 (if gt d (Num 0) then - 1 else 1)"

definition sweep_miss :: SweepResult where
  "sweep_miss = \<lparr>sweep_hit = False, sweep_t = Num 1, sweep_normal = vec3 0 0 0\<rparr>"

text \<open>The slab loop of \<open>intersectSegmentAABB\<close> over the remaining axes.\<close>

fun slab_loop ::
  "Vec3 \<Rightarrow> Vec3 \<Rightarrow> AABB \<Rightarrow> axis list \<Rightarrow> number \<Rightarrow> number \<Rightarrow> Vec3 \<Rightarrow> SweepResult" where
  "slab_loop start dir aabb [] tmin tmax nrm =
     \<lparr>sweep_hit = (ge tmin (Num 0) \<and> le tmin (Num 1)), sweep_t = tmin, sweep_normal = nrm\<rparr>"
| "slab_loop start dir aabb (ax # axes) tmin tmax nrm =
     (let s = comp ax start;
          d = comp ax dir;
          mn = comp ax (minp aabb);
          mx = comp ax (maxp aabb)
      in if lt (fabs d) (fl (1 / 1000000000))
         then (if lt s mn \<or> gt s mx then sweep_miss
               else slab_loop start dir aabb axes tmin tmax nrm)
         else
           let t1 = fdiv (fsub mn s) d;
               t2 = fdiv (fsub mx s) d;
               t1' = (if gt t1 t2 then t2 else t1);
               t2' = (if gt t1 t2 then t1 else t2);
               tmin' = (if gt t1' tmin then t1' else tmin);
               nrm' = (if gt t1' tmin then entry_normal ax d else nrm);
               tmax' = fmin tmax t2'
           in if lt tmax' tmin' then sweep_miss
              else slab_loop start dir aabb axes tmin' tmax' nrm')"

definition intersectSegmentAABB :: "Vec3 \<Rightarrow> Vec3 \<Rightarrow> AABB \<Rightarrow> SweepResult" where
  "intersectSegmentAABB start end' aabb =
     slab_loop start (Vec3_subtract end' start) aabb [AxisX, AxisY, AxisZ] (Num 0) (Num 1)
       (vec3 0 0 0)"

definition checkDynamicSolid :: "ECSWorld \<Rightarrow> AABB \<Rightarrow> Vec3 \<Rightarrow> EntityId \<Rightarrow> CollisionInfo" where
  "checkDynamicSolid w movingAABB displacement otherEntityId =
     (case getContract w otherEntityId ''solidity'' of
        Some (Solidity True _) \<Rightarrow>
          (case (getContract w otherEntityId ''shape'', getContract w otherEntityId ''mobility'') of
             (Some (Shape otherBounds _), Some (Mobility otherPos _ _ _)) \<Rightarrow>
               let otherAABB = getEntityAABB otherBounds otherPos;
                   halfExtents =
                     \<lparr>x = fdiv (fsub (x (maxp movingAABB)) (x (minp movingAABB))) (Num 2),
                      y = fdiv (fsub (y (maxp movingAABB)) (y (minp movingAABB))) (Num 2),
                      z = fdiv (fsub (z (maxp movingAABB)) (z (minp movingAABB))) (Num 2)\<rparr>;
                   startCenter =
                     \<lparr>x = fdiv (fadd (x (minp movingAABB)) (x (maxp movingAABB))) (Num 2),
                      y = fdiv (fadd (y (minp movingAABB)) (y (maxp movingAABB))) (Num 2),
                      z = fdiv (fadd (z (minp movingAABB)) (z (maxp movingAABB))) (Num 2)\<rparr>;
                   endCenter = Vec3_add startCenter displacement;
                   expandedAABB = \<lparr>minp = Vec3_subtract (minp otherAABB) halfExtents,
                                    maxp = Vec3_add (maxp otherAABB) halfExtents\<rparr>;
                   sweep = intersectSegmentAABB startCenter endCenter expandedAABB
               in if sweep_hit sweep
                  then
                    let totalDist = Vec3_length displacement;
                        hitDist = fmul (fmax (Num 0) (fmin (Num 1) (sweep_t sweep))) totalDist;
                        hitPoint = Vec3_add startCenter
                                     (Vec3_multiply (Vec3_subtract endCenter startCenter)
                                        (sweep_t sweep))
                    in \<lparr>hit = True, point = hitPoint, normal = sweep_normal sweep,
                        distance = hitDist, entityId = Some otherEntityId\<rparr>
                  else no_hit movingAABB displacement
           | _ \<Rightarrow> no_hit movingAABB displacement)
      | _ \<Rightarrow> no_hit movingAABB displacement)"

definition closer :: "CollisionInfo \<Rightarrow> CollisionInfo \<Rightarrow> CollisionInfo" where
  "closer closestCollision candidate =
     (if hit candidate \<and> lt (distance candidate) (distance closestCollision) then candidate
      else closestCollision)"

fun static_loop ::
  "AABB \<Rightarrow> Vec3 \<Rightarrow> nat \<Rightarrow> ChunkKey list \<Rightarrow> CollisionInfo \<Rightarrow> ChunkManager
     \<Rightarrow> CollisionInfo \<times> ChunkManager" where
  "static_loop movingAABB displacement now [] closestCollision cm = (closestCollision, cm)"
| "static_loop movingAABB displacement now (chunkKey # rest) closestCollision cm =
     (case checkStaticSolids movingAABB displacement chunkKey now cm of
        (staticCollision, cm') \<Rightarrow>
          static_loop movingAABB displacement now rest
            (closer closestCollision staticCollision) cm')"

definition performSweptAABB ::
  "EntityId \<Rightarrow> Vec3 \<Rightarrow> Vec3 \<Rightarrow> AABB \<Rightarrow> nat \<Rightarrow> BasicMovementSystem
     \<Rightarrow> (CollisionInfo, BasicMovementSystem) outcome" where
  "performSweptAABB e startPos endPos shape_bounds now sys =
     (let displacement = Vec3_subtract endPos startPos;
          movingAABB = getEntityAABB shape_bounds startPos;
          closestCollision = \<lparr>hit = False, point = endPos, normal = vec3 0 1 0,
                               distance = Vec3_length displacement, entityId = None\<rparr>
      in case getChunksForMovement (layerRegistry sys) startPos endPos of
           Inl err \<Rightarrow> Throws err sys
         | Inr affectedChunks \<Rightarrow>
             let solidEntities =
                   removeAll e (foldl set_add [] (getEntitiesWithContract (ecsWorld sys) ''solidity''))
             in case static_loop movingAABB displacement now affectedChunks closestCollision
                       (chunkManager sys) of
                  (afterStatic, cm') \<Rightarrow>
                    Returns
                      (foldl (\<lambda>cur otherEntityId.
                                closer cur (checkDynamicSolid (ecsWorld sys) movingAABB
                                              displacement otherEntityId))
                         afterStatic solidEntities)
                      (sys\<lparr>chunkManager := cm'\<rparr>))"

definition clampMovementToCollision :: "Vec3 \<Rightarrow> Vec3 \<Rightarrow> CollisionInfo \<Rightarrow> Vec3" where
  "clampMovementToCollision startPos endPos collision =
     (let displacement = Vec3_subtract endPos startPos;
          clampFactor = fmax (Num 0)
                          (fsub (fdiv (distance collision) (Vec3_length displacement))
                             COLLISION_EPSILON);
          clampedDisplacement = Vec3_multiply displacement clampFactor
      in Vec3_add startPos clampedDisplacement)"

text \<open>
  \<open>attemptMove\<close>. \<open>mobility.maxSpeed || 5\<close> is \<open>num_or\<close>; the ternary on
  \<open>collision.entityId\<close> takes the empty id as absent.
\<close>

definition attemptMove ::
  "EntityId \<Rightarrow> Vec3 \<Rightarrow> number \<Rightarrow> nat \<Rightarrow> BasicMovementSystem
     \<Rightarrow> (MoveResult, BasicMovementSystem) outcome" where
  "attemptMove e want deltaTime now sys =
     (case getContract (ecsWorld sys) e ''mobility'' of
        Some (Mobility currentPosition _ mobilityMaxSpeed _) \<Rightarrow>
          (case getContract (ecsWorld sys) e ''shape'' of
             Some (Shape shape_bounds _) \<Rightarrow>
               let maxSpd = num_or mobilityMaxSpeed (Num 5);
                   direction = Vec3_subtract want currentPosition;
                   wantDistance = Vec3_length direction
               in if lt wantDistance COLLISION_EPSILON
                  then Returns \<lparr>ok = True, result_position = currentPosition,
                                 blockedReason = None, collisionNormal = None\<rparr> sys
                  else
                    let normalizedDirection = Vec3_normalize direction;
                        maxDisplacement = fmul maxSpd deltaTime;
                        actualDistance = fmin wantDistance maxDisplacement;
                        displacement = Vec3_multiply normalizedDirection actualDistance;
                        proposedPosition = Vec3_add currentPosition displacement
                    in case performSweptAABB e currentPosition proposedPosition shape_bounds
                              now sys of
                         Throws err sys' \<Rightarrow> Throws err sys'
                       | Diverges \<Rightarrow> Diverges
                       | Returns collision sys' \<Rightarrow>
                           if \<not> hit collision
                           then Returns \<lparr>ok = True, result_position = proposedPosition,
                                          blockedReason = None, collisionNormal = None\<rparr> sys'
                           else
                             Returns
                               \<lparr>ok = False,
                                result_position =
                                  clampMovementToCollision currentPosition proposedPosition
                                    collision,
                                blockedReason =
                                  Some (case entityId collision of
                                          None \<Rightarrow> ''Blocked by solid''
                                        | Some i \<Rightarrow>
                                            if i = [] then ''Blocked by solid''
                                            else ''Blocked by entity '' @ i),
                                collisionNormal = Some (normal collision)\<rparr> sys'
           | _ \<Rightarrow>
               Returns \<lparr>ok = False, result_position = currentPosition,
                        blockedReason = Some ''No shape contract'',
                        collisionNormal = None\<rparr> sys)
      | _ \<Rightarrow>
          Returns \<lparr>ok = False, result_position = vec3 0 0 0,
                   blockedReason = Some ''No mobility contract'', collisionNormal = None\<rparr> sys)"

text \<open>\<open>moveEntity\<close>: \<open>result.position\<close> is always an object, hence truthy.\<close>

definition moveEntity ::
  "EntityId \<Rightarrow> Vec3 \<Rightarrow> number \<Rightarrow> nat \<Rightarrow> BasicMovementSystem
     \<Rightarrow> (bool, BasicMovementSystem) outcome" where
  "moveEntity e target deltaTime now sys =
     (case attemptMove e target deltaTime now sys of
        Throws err sys' \<Rightarrow> Throws err sys'
      | Diverges \<Rightarrow> Diverges
      | Returns result sys' \<Rightarrow>
          (case getContract (ecsWorld sys') e ''mobility'' of
             Some (Mobility p v ms acc) \<Rightarrow>
               (case addContract e (Mobility (result_position result) v ms acc) (ecsWorld sys') of
                  Throws err w' \<Rightarrow> Throws err (sys'\<lparr>ecsWorld := w'\<rparr>)
                | Diverges \<Rightarrow> Diverges
                | Returns _ w' \<Rightarrow> Returns (ok result) (sys'\<lparr>ecsWorld := w'\<rparr>))
           | _ \<Rightarrow> Returns (ok result) sys'))"


section \<open>Operation sequences on the store\<close>

text \<open>
  A caller's sequence of store operations. A call that throws leaves its writes in
  place and the caller goes on with that state; a call that never returns ends the
  sequence (\<open>None\<close>). The observations below are made on the state the sequence
  ends in, starting from \<open>createECSWorld\<close>.
\<close>

datatype ecs_op =
    CreateEntity EntityId "contract list"
  | RemoveEntity EntityId
  | AddContract EntityId contract
  | RemoveContract EntityId string

definition state_of :: "('a, 's) outcome \<Rightarrow> 's option" where
  "state_of r = (case r of Returns _ s \<Rightarrow> Some s | Throws _ s \<Rightarrow> Some s | Diverges \<Rightarrow> None)"

fun apply_op :: "ecs_op \<Rightarrow> ECSWorld \<Rightarrow> ECSWorld option" where
  "apply_op (CreateEntity e cs) w = state_of (createEntity e cs w)"
| "apply_op (RemoveEntity e) w = Some (snd (removeEntity e w))"
| "apply_op (AddContract e c) w = state_of (addContract e c w)"
| "apply_op (RemoveContract e t) w = Some (snd (removeContract e t w))"

fun run_ops :: "ecs_op list \<Rightarrow> ECSWorld \<Rightarrow> ECSWorld option" where
  "run_ops [] w = Some w"
| "run_ops (opn # ops) w =
     (case apply_op opn w of None \<Rightarrow> None | Some w' \<Rightarrow> run_ops ops w')"

definition query_after :: "ecs_op list \<Rightarrow> EntityId \<Rightarrow> string \<Rightarrow> contract option option" where
  "query_after ops e t = map_option (\<lambda>w. getContract w e t) (run_ops ops createECSWorld)"

definition index_after :: "ecs_op list \<Rightarrow> string \<Rightarrow> EntityId list option" where
  "index_after ops t = map_option (\<lambda>w. getEntitiesWithContract w t) (run_ops ops createECSWorld)"




section \<open>Observations on an outcome\<close>

definition returned :: "('a, 's) outcome \<Rightarrow> 'a option" where
  "returned r = (case r of Returns v _ \<Rightarrow> Some v | Throws _ _ \<Rightarrow> None | Diverges \<Rightarrow> None)"

definition observed_durability ::
  "(bool, BasicDurabilitySystem) outcome \<Rightarrow> EntityId \<Rightarrow> contract option option" where
  "observed_durability r e =
     map_option (\<lambda>s. getContract (dur_ecsWorld s) e ''durability'') (state_of r)"

text \<open>
  A durability system created over the store that a sequence of operations ends in,
  and a caller's sequence of \<open>damage\<close> calls on it with their return values. A call
  that throws or never returns ends the sequence (\<open>None\<close>).
\<close>

definition system_after :: "ecs_op list \<Rightarrow> BasicDurabilitySystem option" where
  "system_after ops =
     map_option (\<lambda>w. \<lparr>dur_ecsWorld = w, damageEvents = [], destroyEvents = []\<rparr>)
       (run_ops ops createECSWorld)"

fun damages ::
  "(EntityId \<times> real) list \<Rightarrow> BasicDurabilitySystem
     \<Rightarrow> (bool list \<times> BasicDurabilitySystem) option" where
  "damages [] sys = Some ([], sys)"
| "damages ((e, amount) # rest) sys =
     (case damage e amount None 0 sys of
        Returns b sys' \<Rightarrow>
          (case damages rest sys' of None \<Rightarrow> None
           | Some (bs, sys'') \<Rightarrow> Some (b # bs, sys''))
      | Throws _ _ \<Rightarrow> None
      | Diverges \<Rightarrow> None)"

definition durability_after ::
  "ecs_op list \<Rightarrow> (EntityId \<times> real) list \<Rightarrow> EntityId
     \<Rightarrow> (bool list \<times> contract option \<times> contract list \<times> real list) option" where
  "durability_after ops ds e =
     (case system_after ops of None \<Rightarrow> None
      | Some sys \<Rightarrow>
        (case damages ds sys of None \<Rightarrow> None
         | Some (bs, sys') \<Rightarrow>
             Some (bs, getContract (dur_ecsWorld sys') e ''durability'',
                   filter (\<lambda>c. contract_type c = ''durability'')
                     (getContracts (dur_ecsWorld sys') e),
                   map dmg_damage (damageEvents sys'))))"

text \<open>A durability system over a store with one armoured block of health 5.\<close>

definition block_system :: BasicDurabilitySystem where
  "block_system =
     \<lparr>dur_ecsWorld =
        \<lparr>entities = Map.empty(''b'' \<mapsto>
                       [Identity ''b'' None None, Durability 5 5 (Some 50)]),
         contractIndex = Map.empty(''identity'' \<mapsto> [''b''], ''durability'' \<mapsto> [''b'']),
         hookLog = []\<rparr>,
      damageEvents = [], destroyEvents = []\<rparr>"

section \<open>Auxiliary notions for the movement proofs\<close>

text \<open>
  Keys of the layer \<open>default\<close>; keys whose three indices are integers printed without
  exponent; the chunk keys that \<open>getChunksForMovement\<close> collects, before the detour
  through their string forms; and the occupancy grid stored under a key string.
\<close>

definition default_key :: "ChunkKey \<Rightarrow> bool" where
  "default_key k = (layerId k = ''default'')"

definition integer_key :: "ChunkKey \<Rightarrow> bool" where
  "integer_key k = (integer_index (cx k) \<and> integer_index (cy k) \<and> integer_index (cz k))"

definition movement_chunks :: "LayerRegistry \<Rightarrow> Vec3 \<Rightarrow> Vec3 \<Rightarrow> ChunkKey list" where
  "movement_chunks reg startPos endPos =
     (let startChunk = keyFromPos reg ''default'' startPos None;
          endChunk = keyFromPos reg ''default'' endPos None
      in foldl set_add [] (startChunk # endChunk # getNeighboringChunks startChunk 1))"

definition grid_of :: "ChunkManager \<Rightarrow> string \<Rightarrow> SolidGrid option" where
  "grid_of cm s = (case cm s of None \<Rightarrow> None | Some c \<Rightarrow> solidGrid c)"

text \<open>
  The candidates of one sweep, in the order in which \<open>performSweptAABB\<close> examines them:
  one per affected chunk, then one per entity of the solidity index other than the
  mover.
\<close>

definition static_candidates ::
  "AABB \<Rightarrow> Vec3 \<Rightarrow> nat \<Rightarrow> ChunkManager \<Rightarrow> ChunkKey list \<Rightarrow> CollisionInfo list" where
  "static_candidates A D now cm ks = map (\<lambda>k. fst (checkStaticSolids A D k now cm)) ks"

definition dynamic_candidates ::
  "ECSWorld \<Rightarrow> AABB \<Rightarrow> Vec3 \<Rightarrow> EntityId \<Rightarrow> CollisionInfo list" where
  "dynamic_candidates w A D e =
     map (checkDynamicSolid w A D)
       (removeAll e (foldl set_add [] (getEntitiesWithContract w ''solidity'')))"

section \<open>A scene with a static and a dynamic obstacle at the same distance\<close>

text \<open>
  The mover of the repository's collision test (at the origin, box of half extent 0.5,
  maxSpeed 10) and its solid obstacle at \<open>(2,0,0)\<close>; in addition the chunk
  \<open>default:0,0,0\<close> carries an occupancy grid of resolution 16 whose cell \<open>(0,0,0)\<close>
  was set solid.
\<close>

definition unit_box :: AABB where
  "unit_box = \<lparr>minp = vec3 (- 1 / 2) (- 1 / 2) (- 1 / 2), maxp = vec3 (1 / 2) (1 / 2) (1 / 2)\<rparr>"

definition origin_key :: ChunkKey where
  "origin_key = \<lparr>layerId = ''default'', cx = Num 0, cy = Num 0, cz = Num 0\<rparr>"

definition origin_chunk :: Chunk where
  "origin_chunk =
     \<lparr>key = origin_key, chunk_entities = [], loaded = True, lastAccessed = 0,
      subscriptions = [], lastModified = 0, version = 2,
      solidGrid = Some \<lparr>width = 16, height = 16, depth = 16, data = 1 # replicate 4095 0\<rparr>\<rparr>"

definition tie_world :: ECSWorld where
  "tie_world =
     \<lparr>entities = Map.empty
        (''mobile-entity'' \<mapsto> [Mobility (vec3 0 0 0) None (Some (Num 10)) None,
                               Shape unit_box (Some ''box'')],
         ''obstacle'' \<mapsto> [Mobility (vec3 2 0 0) None None None,
                          Shape unit_box (Some ''box''), Solidity True None]),
      contractIndex = Map.empty
        (''mobility'' \<mapsto> [''mobile-entity'', ''obstacle''],
         ''shape'' \<mapsto> [''mobile-entity'', ''obstacle''],
         ''solidity'' \<mapsto> [''obstacle'']),
      hookLog = []\<rparr>"

definition tie_system :: BasicMovementSystem where
  "tie_system =
     \<lparr>ecsWorld = tie_world,
      chunkManager = Map.empty(ChunkUtils_toString origin_key \<mapsto> origin_chunk),
      layerRegistry = initialLayers\<rparr>"

text \<open>The static-grid hit of that scene for a displacement of \<open>(2,0,0)\<close>.\<close>

definition tie_static_hit :: CollisionInfo where
  "tie_static_hit = \<lparr>hit = True, point = vec3 (3 / 2) (- 1 / 2) (- 1 / 2), normal = vec3 0 1 0,
                      distance = Num 1, entityId = None\<rparr>"

section \<open>Entities lacking a component\<close>

text \<open>
  The two entities of the repository's requirement tests: one with a shape only, one
  with a mobility only.
\<close>

definition only_shape_system :: BasicMovementSystem where
  "only_shape_system =
     \<lparr>ecsWorld = \<lparr>entities = Map.empty(''no-mobility'' \<mapsto> [Shape unit_box (Some ''box'')]),
                  contractIndex = Map.empty(''shape'' \<mapsto> [''no-mobility'']), hookLog = []\<rparr>,
      chunkManager = Map.empty, layerRegistry = initialLayers\<rparr>"

definition only_mobility_system :: BasicMovementSystem where
  "only_mobility_system =
     \<lparr>ecsWorld = \<lparr>entities = Map.empty(''no-shape'' \<mapsto>
                                [Mobility (vec3 3 4 5) None (Some (Num 5)) None]),
                  contractIndex = Map.empty(''mobility'' \<mapsto> [''no-shape'']), hookLog = []\<rparr>,
      chunkManager = Map.empty, layerRegistry = initialLayers\<rparr>"

section \<open>Invariants of the store\<close>

text \<open>
  Every stored contract is its own parse (it passed the schema), and every id listed in
  the index under a type holds a contract of that type.
\<close>

definition stored_valid :: "ECSWorld \<Rightarrow> bool" where
  "stored_valid w = (\<forall>e cs c. entities w e = Some cs \<longrightarrow> c \<in> set cs \<longrightarrow> validate c = Inr c)"

definition index_sound :: "ECSWorld \<Rightarrow> bool" where
  "index_sound w =
     (\<forall>t e. e \<in> set (getEntitiesWithContract w t) \<longrightarrow> getContract w e t \<noteq> None)"


section \<open>Rounding to the nearest double\<close>

lemma two_powi_pos: "0 < (2::real) powi e"
  by simp

lemma two_powi_less_iff: "(2::real) powi a < 2 powi b \<longleftrightarrow> a < b"
proof
  assume l: "(2::real) powi a < 2 powi b"
  show "a < b"
  proof (rule ccontr)
    assume "\<not> a < b"
    then have "b \<le> a" by simp
    then have "(2::real) powi b \<le> 2 powi a" by (intro power_int_increasing) auto
    with l show False by simp
  qed
next
  assume "a < b"
  then show "(2::real) powi a < 2 powi b" by (intro power_int_strict_increasing) auto
qed

lemma two_powi_le_iff: "(2::real) powi a \<le> 2 powi b \<longleftrightarrow> a \<le> b"
  using two_powi_less_iff [of b a] by (auto simp: not_less [symmetric])

lemma two_powi_add: "(2::real) powi (a + b) = 2 powi a * 2 powi b"
  by (simp add: power_int_add)

lemma two_powi_diff: "(2::real) powi (a - b) = 2 powi a / 2 powi b"
  by (simp add: power_int_diff)

lemma binade_bounds:
  assumes "r \<noteq> 0"
  shows "2 powi (binade r) \<le> \<bar>r\<bar> \<and> \<bar>r\<bar> < 2 powi (binade r + 1)"
proof (cases "1 \<le> \<bar>r\<bar>")
  case True
  let ?n = "\<lfloor>\<bar>r\<bar>\<rfloor>"
  have n: "0 < ?n" using True by linarith
  have b1: "1 \<le> bitlen ?n" using n bitlen_eq_zero_iff [of ?n] bitlen_nonneg [of ?n] by linarith
  from bitlen_bounds [OF n]
  have lo: "(2::int) ^ nat (bitlen ?n - 1) \<le> ?n" and hi: "?n < 2 ^ nat (bitlen ?n)" by auto
  have "(2::real) powi (bitlen ?n - 1) = 2 ^ nat (bitlen ?n - 1)"
    using b1 by (simp add: power_int_def)
  also have "\<dots> = of_int (2 ^ nat (bitlen ?n - 1))" by simp
  also have "\<dots> \<le> of_int ?n" using lo by (simp only: of_int_le_iff)
  also have "\<dots> \<le> \<bar>r\<bar>" by linarith
  finally have A: "(2::real) powi (bitlen ?n - 1) \<le> \<bar>r\<bar>" .
  have "\<bar>r\<bar> < of_int (?n + 1)" by linarith
  also have "\<dots> \<le> of_int (2 ^ nat (bitlen ?n))"
  proof -
    have "?n + 1 \<le> 2 ^ nat (bitlen ?n)" using hi by linarith
    then show ?thesis by (simp only: of_int_le_iff)
  qed
  also have "\<dots> = (2::real) powi (bitlen ?n)" using b1 by (simp add: power_int_def)
  finally have B: "\<bar>r\<bar> < (2::real) powi (bitlen ?n)" .
  show ?thesis using True A B by (simp add: binade_def)
next
  case False
  let ?c = "\<lceil>1 / \<bar>r\<bar>\<rceil>"
  have rpos: "0 < \<bar>r\<bar>" using assms by simp
  have inv: "1 < 1 / \<bar>r\<bar>" using False rpos by simp
  have c2: "2 \<le> ?c" using inv by linarith
  let ?b = "bitlen (?c - 1)"
  have n: "0 < ?c - 1" using c2 by linarith
  have b1: "1 \<le> ?b" using n bitlen_eq_zero_iff [of "?c - 1"] bitlen_nonneg [of "?c - 1"] by linarith
  from bitlen_bounds [OF n]
  have lo: "(2::int) ^ nat (?b - 1) \<le> ?c - 1" and hi: "?c - 1 < 2 ^ nat ?b" by auto
  have p1: "(2::real) powi (- ?b) = 1 / 2 ^ nat ?b"
    using b1 by (simp add: power_int_def field_simps)
  have p2: "(2::real) powi (- ?b + 1) = 1 / 2 ^ nat (?b - 1)"
    using b1 by (simp add: power_int_def field_simps nat_diff_distrib)
  have "1 / \<bar>r\<bar> \<le> of_int ?c" by linarith
  also have "\<dots> \<le> of_int (2 ^ nat ?b)"
  proof -
    have "?c \<le> 2 ^ nat ?b" using hi by linarith
    then show ?thesis by (simp only: of_int_le_iff)
  qed
  finally have "1 / \<bar>r\<bar> \<le> 2 ^ nat ?b" by simp
  then have A: "1 / 2 ^ nat ?b \<le> \<bar>r\<bar>" using rpos by (simp add: field_simps)
  have "of_int (2 ^ nat (?b - 1)) \<le> (of_int (?c - 1) :: real)" using lo by (simp only: of_int_le_iff)
  also have "\<dots> < 1 / \<bar>r\<bar>" by linarith
  finally have "2 ^ nat (?b - 1) < 1 / \<bar>r\<bar>" by simp
  then have B: "\<bar>r\<bar> < 1 / 2 ^ nat (?b - 1)" using rpos by (simp add: field_simps)
  show ?thesis using False A B p1 p2 by (simp add: binade_def)
qed

lemma binade_unique:
  assumes "2 powi e \<le> \<bar>r\<bar>" "\<bar>r\<bar> < 2 powi (e + 1)"
  shows "binade r = e"
proof -
  have r0: "r \<noteq> 0"
  proof
    assume "r = 0"
    with assms(1) have "(2::real) powi e \<le> 0" by simp
    with two_powi_pos [of e] show False by linarith
  qed
  from binade_bounds [OF r0]
  have b: "2 powi (binade r) \<le> \<bar>r\<bar>" "\<bar>r\<bar> < 2 powi (binade r + 1)" by auto
  have "(2::real) powi e < 2 powi (binade r + 1)" using assms(1) b(2) by linarith
  then have 1: "e < binade r + 1" by (simp add: two_powi_less_iff)
  have "(2::real) powi (binade r) < 2 powi (e + 1)" using assms(2) b(1) by linarith
  then have 2: "binade r < e + 1" by (simp add: two_powi_less_iff)
  from 1 2 show ?thesis by linarith
qed

lemma binade_zero: "binade 0 = 0"
  by (simp add: binade_def bitlen_eq_zero_iff)

lemma round_even_of_int: "round_even (of_int n) = n"
  by (simp add: round_even_def)

lemma round_even_floor:
  "round_even t = \<lfloor>t\<rfloor> \<or> round_even t = \<lfloor>t\<rfloor> + 1"
  by (simp add: round_even_def Let_def)

lemma round_even_error: "\<bar>of_int (round_even t) - t\<bar> \<le> 1 / 2"
proof -
  define d where "d = t - of_int \<lfloor>t\<rfloor>"
  have d: "0 \<le> d" "d < 1" unfolding d_def by linarith+
  have t: "t = of_int \<lfloor>t\<rfloor> + d" by (simp add: d_def)
  have 1: "\<bar>of_int \<lfloor>t\<rfloor> - t\<bar> \<le> 1 / 2" if "d \<le> 1 / 2"
    using that d by (subst (2) t) simp
  have 2: "\<bar>of_int (\<lfloor>t\<rfloor> + 1) - t\<bar> \<le> 1 / 2" if "1 / 2 \<le> d"
    using that d by (subst (2) t) simp
  show ?thesis
    unfolding round_even_def Let_def d_def [symmetric]
    using 1 2 by (auto simp: not_less)
qed

lemma round_even_zero: "round_even 0 = 0"
  using round_even_of_int [of 0] by simp

subsection \<open>The computed square root\<close>

lemma isqrt_bounds: "0 \<le> n \<Longrightarrow> 0 \<le> isqrt n \<and> isqrt n * isqrt n \<le> n \<and> n < (isqrt n + 1) * (isqrt n + 1)"
proof (induction n rule: isqrt.induct)
  case (1 n)
  show ?case
  proof (cases "n \<le> 0")
    case True
    with 1(2) have "n = 0" by simp
    then show ?thesis by (simp add: isqrt.simps)
  next
    case False
    define s where "s = isqrt (n div 4)"
    have d: "0 \<le> n div 4" using 1(2) by simp
    from 1(1) [OF False d]
    have ih: "0 \<le> s" "s * s \<le> n div 4" "n div 4 < (s + 1) * (s + 1)"
      by (simp_all add: s_def)
    have n4: "4 * (n div 4) \<le> n" "n < 4 * (n div 4) + 4" by simp_all
    have lo: "(2 * s) * (2 * s) \<le> n" using ih(2) n4(1) by (simp add: algebra_simps)
    have "n div 4 + 1 \<le> (s + 1) * (s + 1)" using ih(3) by simp
    then have hi: "n < (2 * s + 2) * (2 * s + 2)" using n4(2) by (simp add: algebra_simps)
    have eq: "isqrt n = (if (2 * s + 1) * (2 * s + 1) \<le> n then 2 * s + 1 else 2 * s)"
      using False by (subst isqrt.simps) (simp add: s_def Let_def)
    show ?thesis
    proof (cases "(2 * s + 1) * (2 * s + 1) \<le> n")
      case True
      then have "isqrt n = 2 * s + 1" using eq by simp
      then show ?thesis using True hi ih(1) by (simp add: algebra_simps)
    next
      case False
      then have "isqrt n = 2 * s" using eq by simp
      then show ?thesis using False lo ih(1) by (simp add: algebra_simps)
    qed
  qed
qed

lemma floor_sqrt_isqrt:
  assumes "0 \<le> t"
  shows "of_int (isqrt \<lfloor>t\<rfloor>) \<le> sqrt t \<and> sqrt t < of_int (isqrt \<lfloor>t\<rfloor>) + 1"
proof -
  define s where "s = isqrt \<lfloor>t\<rfloor>"
  have f0: "0 \<le> \<lfloor>t\<rfloor>" using assms by simp
  from isqrt_bounds [OF f0]
  have b: "0 \<le> s" "s * s \<le> \<lfloor>t\<rfloor>" "\<lfloor>t\<rfloor> < (s + 1) * (s + 1)" by (simp_all add: s_def)
  have "of_int (s * s) \<le> (of_int \<lfloor>t\<rfloor> :: real)" using b(2) by (simp only: of_int_le_iff)
  also have "\<dots> \<le> t" by linarith
  finally have lo: "(of_int s)\<^sup>2 \<le> t" by (simp add: power2_eq_square)
  have "\<lfloor>t\<rfloor> + 1 \<le> (s + 1) * (s + 1)" using b(3) by linarith
  then have "(of_int (\<lfloor>t\<rfloor> + 1) :: real) \<le> of_int ((s + 1) * (s + 1))" by (simp only: of_int_le_iff)
  moreover have "t < of_int (\<lfloor>t\<rfloor> + 1)" by linarith
  ultimately have "t < of_int ((s + 1) * (s + 1))" by linarith
  then have hi: "t < (of_int s + 1)\<^sup>2" by (simp add: power2_eq_square)
  have s0: "0 \<le> (of_int s :: real)" using b(1) by simp
  have 1: "of_int s \<le> sqrt t" using lo s0 by (simp add: real_le_rsqrt)
  have 2: "sqrt t < of_int s + 1" using hi s0 by (intro real_less_lsqrt) auto
  show ?thesis using 1 2 by (simp add: s_def)
qed

lemma round_even_sqrt:
  assumes "0 \<le> t"
  shows "round_even (sqrt t) = round_sqrt t"
proof -
  define s where "s = isqrt \<lfloor>t\<rfloor>"
  define m where "m = (of_int (s * s + s) + 1 / 4 :: real)"
  have f0: "0 \<le> \<lfloor>t\<rfloor>" using assms by simp
  have s0: "0 \<le> (of_int s :: real)" using isqrt_bounds [OF f0] by (simp add: s_def)
  from floor_sqrt_isqrt [OF assms]
  have b: "of_int s \<le> sqrt t" "sqrt t < of_int s + 1" by (simp_all add: s_def)
  have fl: "\<lfloor>sqrt t\<rfloor> = s" using b by linarith
  have msq: "m = (of_int s + 1 / 2)\<^sup>2" by (simp add: m_def power2_eq_square algebra_simps)
  have h0: "0 \<le> (of_int s + 1 / 2 :: real)" using s0 by simp
  have lt: "sqrt t < of_int s + 1 / 2 \<longleftrightarrow> t < m"
  proof
    assume "sqrt t < of_int s + 1 / 2"
    then have "(sqrt t)\<^sup>2 < (of_int s + 1 / 2)\<^sup>2"
      by (intro power_strict_mono) (use assms in auto)
    then show "t < m" using assms by (simp add: msq)
  next
    assume "t < m"
    then show "sqrt t < of_int s + 1 / 2" unfolding msq using h0 by (intro real_less_lsqrt) auto
  qed
  have gt: "of_int s + 1 / 2 < sqrt t \<longleftrightarrow> m < t"
  proof
    assume "of_int s + 1 / 2 < sqrt t"
    then have "(of_int s + 1 / 2)\<^sup>2 < (sqrt t)\<^sup>2"
      by (intro power_strict_mono) (use h0 in auto)
    then show "m < t" using assms by (simp add: msq)
  next
    assume "m < t"
    then show "of_int s + 1 / 2 < sqrt t" unfolding msq using h0 by (intro real_less_rsqrt) auto
  qed
  have "(sqrt t - of_int s < 1 / 2) = (sqrt t < of_int s + 1 / 2)" by linarith
  with lt have d1: "sqrt t - of_int s < 1 / 2 \<longleftrightarrow> t < m" by simp
  have "(1 / 2 < sqrt t - of_int s) = (of_int s + 1 / 2 < sqrt t)" by linarith
  with gt have d2: "1 / 2 < sqrt t - of_int s \<longleftrightarrow> m < t" by simp
  show ?thesis
    unfolding round_even_def round_sqrt_def Let_def fl s_def [symmetric] m_def [symmetric] d1 d2
    by simp
qed

lemma binade_sqrt:
  assumes "0 \<le> r"
  shows "binade (sqrt r) = binade r div 2"
proof (cases "r = 0")
  case True
  then show ?thesis by (simp add: binade_zero)
next
  case False
  then have rpos: "0 < r" using assms by simp
  define b where "b = binade r"
  define h where "h = b div 2"
  from binade_bounds [OF False] rpos
  have rb: "2 powi b \<le> r" "r < 2 powi (b + 1)" by (simp_all add: b_def)
  have hb: "2 * h \<le> b" "b + 1 \<le> 2 * h + 2" by (simp_all add: h_def)
  have sq1: "((2::real) powi h)\<^sup>2 = 2 powi (2 * h)"
    by (simp add: power2_eq_square power_int_add [symmetric])
  have sq2: "((2::real) powi (h + 1))\<^sup>2 = 2 powi (2 * h + 2)"
    by (simp add: power2_eq_square power_int_add [symmetric])
  have "((2::real) powi h)\<^sup>2 \<le> 2 powi b" unfolding sq1 using hb(1) by (simp add: two_powi_le_iff)
  with rb(1) have "((2::real) powi h)\<^sup>2 \<le> r" by linarith
  then have lo: "2 powi h \<le> sqrt r" by (intro real_le_rsqrt)
  have "(2::real) powi (b + 1) \<le> ((2::real) powi (h + 1))\<^sup>2"
    unfolding sq2 using hb(2) by (simp add: two_powi_le_iff)
  with rb(2) have "r < ((2::real) powi (h + 1))\<^sup>2" by linarith
  then have hi: "sqrt r < 2 powi (h + 1)" by (intro real_less_lsqrt) auto
  have "0 \<le> sqrt r" using assms by simp
  with lo hi have "binade (sqrt r) = h" by (intro binade_unique) auto
  then show ?thesis by (simp add: h_def b_def)
qed

lemma fl_sqrt_correct:
  assumes "0 \<le> r"
  shows "fl (sqrt r) = fl_sqrt r"
proof -
  define q where "q = (2::real) powi (max (binade r div 2) (- 1022) - 52)"
  have qpos: "0 < q" by (simp add: q_def)
  have qu: "quantum (sqrt r) = q" by (simp add: quantum_def binade_sqrt [OF assms] q_def)
  have "sqrt (r / (q * q)) = sqrt r / q"
    using qpos by (simp add: real_sqrt_divide real_sqrt_mult)
  then have re: "round_even (sqrt r / q) = round_sqrt (r / (q * q))"
    using round_even_sqrt [of "r / (q * q)"] assms qpos by simp
  define v where "v = of_int (round_sqrt (r / (q * q))) * q"
  have pos: "0 < sqrt r" if "2 powi 1024 \<le> \<bar>v\<bar>"
  proof (rule ccontr)
    assume "\<not> 0 < sqrt r"
    then have "sqrt r = 0" using assms by (simp add: not_less)
    then have "round_even (sqrt r / q) = 0" by (simp add: round_even_zero)
    then have "v = 0" using re by (simp add: v_def)
    with that show False by simp
  qed
  show ?thesis
    unfolding fl_def fl_sqrt_def Let_def qu re q_def [symmetric] v_def [symmetric]
    using pos by auto
qed

lemma fsqrt_code [code]: "fsqrt (Num r) = (if r < 0 then NaN else fl_sqrt r)"
  by (simp add: fl_sqrt_correct)


lemma isqrt_unique:
  assumes "0 \<le> s" "s * s \<le> n" "n < (s + 1) * (s + 1)"
  shows "isqrt n = s"
proof -
  have n0: "0 \<le> n" using assms(1,2) by (meson mult_nonneg_nonneg order_trans)
  define i where "i = isqrt n"
  from isqrt_bounds [OF n0]
  have b: "0 \<le> i" "i * i \<le> n" "n < (i + 1) * (i + 1)" by (simp_all add: i_def)
  have 1: "i < s + 1"
  proof (rule ccontr)
    assume "\<not> i < s + 1"
    then have "s + 1 \<le> i" by simp
    then have "(s + 1) * (s + 1) \<le> i * i" using assms(1) by (intro mult_mono) auto
    with b(2) assms(3) show False by linarith
  qed
  have 2: "s < i + 1"
  proof (rule ccontr)
    assume "\<not> s < i + 1"
    then have "i + 1 \<le> s" by simp
    then have "(i + 1) * (i + 1) \<le> s * s" using b(1) by (intro mult_mono) auto
    with b(3) assms(2) show False by linarith
  qed
  from 1 2 show ?thesis by (simp add: i_def)
qed

subsection \<open>Doubles are fixed points of rounding\<close>

lemma round_even_unique:
  assumes "\<bar>t - of_int m\<bar> < 1 / 2"
  shows "round_even t = m"
proof -
  have "\<bar>of_int (round_even t) - t\<bar> \<le> 1 / 2" by (rule round_even_error)
  with assms have "\<bar>(of_int (round_even t) :: real) - of_int m\<bar> < 1" by linarith
  then have "\<bar>round_even t - m\<bar> < 1"
    by (metis of_int_1 of_int_abs of_int_diff of_int_less_iff)
  then show ?thesis by linarith
qed

lemma round_even_minus: "round_even (- t) = - round_even t"
proof (cases "t = of_int \<lfloor>t\<rfloor>")
  case True
  then obtain n where "t = of_int n" ..
  then show ?thesis using round_even_of_int [of n] round_even_of_int [of "- n"] by simp
next
  case False
  define f where "f = \<lfloor>t\<rfloor>"
  define d where "d = t - of_int f"
  have d: "0 < d" "d < 1" using False unfolding d_def f_def by linarith+
  have fm: "\<lfloor>- t\<rfloor> = - f - 1" using False unfolding f_def by linarith
  have dm: "- t - of_int (- f - 1) = 1 - d" by (simp add: d_def)
  have ev: "even (- f - 1) \<longleftrightarrow> odd f" by simp
  show ?thesis
    unfolding round_even_def Let_def fm dm f_def [symmetric] d_def [symmetric] ev
    using d by auto
qed

lemma fl_zero: "fl 0 = Num 0"
  by (simp add: fl_def quantum_def binade_zero round_even_zero Let_def)

lemma fl_exact:
  assumes r: "r = of_int m * 2 powi e"
      and m: "\<bar>m\<bar> < 2 ^ 53"
      and e: "- 1074 \<le> e"
      and fin: "\<bar>r\<bar> < 2 powi 1024"
  shows "fl r = Num r"
proof (cases "r = 0")
  case True
  then show ?thesis by (simp add: fl_zero)
next
  case False
  define b where "b = binade r"
  define qe where "qe = max b (- 1022) - 52"
  from binade_bounds [OF False] have lo: "2 powi b \<le> \<bar>r\<bar>" by (simp add: b_def)
  have "\<bar>r\<bar> = of_int \<bar>m\<bar> * 2 powi e" by (simp add: r abs_mult)
  also have "\<dots> < 2 ^ 53 * 2 powi e"
  proof -
    have "(of_int \<bar>m\<bar> :: real) < of_int (2 ^ 53)" using m by (simp only: of_int_less_iff)
    then have "(of_int \<bar>m\<bar> :: real) < 2 ^ 53" by simp
    then show ?thesis by (intro mult_strict_right_mono) simp_all
  qed
  also have "\<dots> = 2 powi (53 + e)" by (simp add: power_int_add)
  finally have "(2::real) powi b < 2 powi (53 + e)" using lo by linarith
  then have "b < 53 + e" by (simp add: two_powi_less_iff)
  then have qe: "qe \<le> e" using e by (simp add: qe_def)
  define j where "j = nat (e - qe)"
  have ej: "e = qe + int j" using qe by (simp add: j_def)
  have "r / 2 powi qe = of_int m * 2 powi (int j)"
    by (simp add: r ej power_int_add)
  also have "\<dots> = of_int (m * 2 ^ j)" by simp
  finally have "round_even (r / 2 powi qe) = m * 2 ^ j" by (simp only: round_even_of_int)
  then have "of_int (round_even (r / 2 powi qe)) * 2 powi qe = r"
    by (simp add: r ej power_int_add)
  then show ?thesis
    using fin by (simp add: fl_def Let_def quantum_def b_def [symmetric] qe_def [symmetric])
qed

lemma fl_of_int:
  assumes "\<bar>n\<bar> \<le> 2 ^ 53"
  shows "fl (of_int n) = Num (of_int n)"
proof (cases "\<bar>n\<bar> < 2 ^ 53")
  case True
  have "(of_int \<bar>n\<bar> :: real) < of_int (2 ^ 53)"
    using True by (simp only: of_int_less_iff)
  then have "\<bar>(of_int n :: real)\<bar> < 2 ^ 53" by simp
  also have "(2::real) ^ 53 < 2 powi 1024" by simp
  finally have "\<bar>(of_int n :: real)\<bar> < 2 powi 1024" .
  then show ?thesis using True by (intro fl_exact [of _ n 0]) simp_all
next
  case False
  with assms have "n = 2 ^ 53 \<or> n = - (2 ^ 53)" by linarith
  then show ?thesis
  proof
    assume n: "n = 2 ^ 53"
    show ?thesis unfolding n by (intro fl_exact [of _ 1 53]) simp_all
  next
    assume n: "n = - (2 ^ 53)"
    show ?thesis unfolding n by (intro fl_exact [of _ "- 1" 53]) simp_all
  qed
qed

lemma fl_dyadic:
  assumes "\<bar>n\<bar> < 2 ^ 53" "k \<le> 1074"
  shows "fl (of_int n / 2 ^ k) = Num (of_int n / 2 ^ k)"
proof -
  have eq: "(of_int n / 2 ^ k :: real) = of_int n * 2 powi (- int k)"
    by (simp add: power_int_minus field_simps)
  have "(of_int \<bar>n\<bar> :: real) < of_int (2 ^ 53)"
    using assms(1) by (simp only: of_int_less_iff)
  then have n53: "\<bar>(of_int n :: real)\<bar> < 2 ^ 53" by simp
  have "\<bar>(of_int n :: real)\<bar> * 1 \<le> \<bar>of_int n\<bar> * 2 ^ k" by (intro mult_left_mono) auto
  then have "\<bar>(of_int n :: real)\<bar> / 2 ^ k \<le> \<bar>of_int n\<bar>" by (simp add: field_simps)
  with n53 have "\<bar>(of_int n :: real) / 2 ^ k\<bar> < 2 ^ 53" by simp
  also have "(2::real) ^ 53 < 2 powi 1024" by simp
  finally have "\<bar>(of_int n :: real) / 2 ^ k\<bar> < 2 powi 1024" .
  then show ?thesis
    unfolding eq using assms by (intro fl_exact [of _ n "- int k"]) (simp_all add: eq)
qed

lemma fl_minus: "fl (- r) = fneg (fl r)"
proof -
  have b: "binade (- r) = binade r" by (simp add: binade_def)
  have q: "quantum (- r) = quantum r" by (simp add: quantum_def b)
  have re: "round_even (- r / quantum r) = - round_even (r / quantum r)"
    using round_even_minus [of "r / quantum r"] by simp
  define v where "v = of_int (round_even (r / quantum r)) * quantum r"
  have v0: "r = 0 \<Longrightarrow> v = 0" by (simp add: v_def round_even_zero)
  show ?thesis
    unfolding fl_def Let_def q re v_def [symmetric]
    using v0 by (auto simp: v_def [symmetric])
qed

lemma fl_nearest:
  assumes lo: "2 powi b \<le> \<bar>r\<bar>" and hi: "\<bar>r\<bar> < 2 powi (b + 1)"
      and b: "- 1022 \<le> b"
      and near: "\<bar>r / 2 powi (b - 52) - of_int m\<bar> < 1 / 2"
      and fin: "\<bar>of_int m * 2 powi (b - 52)\<bar> < (2::real) powi 1024"
  shows "fl r = Num (of_int m * 2 powi (b - 52))"
proof -
  have bin: "binade r = b" using lo hi by (rule binade_unique)
  have q: "quantum r = 2 powi (b - 52)" using b by (simp add: quantum_def bin max_def)
  have re: "round_even (r / 2 powi (b - 52)) = m" using near by (rule round_even_unique)
  show ?thesis using fin by (simp add: fl_def Let_def q re)
qed

subsection \<open>The ordering of numbers\<close>

lemma lt_irrefl: "\<not> lt a a"
  by (cases a) simp_all

lemma lt_trans: "lt a b \<Longrightarrow> lt b c \<Longrightarrow> lt a c"
  by (cases a; cases b; cases c) simp_all

lemma lt_not_NaN: "lt a b \<Longrightarrow> a \<noteq> NaN \<and> b \<noteq> NaN"
  by (cases a; cases b) simp_all

lemma lt_total: "a \<noteq> NaN \<Longrightarrow> b \<noteq> NaN \<Longrightarrow> lt a b \<or> a = b \<or> lt b a"
  by (cases a; cases b) auto

lemma not_lt_trans: "\<not> lt b a \<Longrightarrow> lt b c \<Longrightarrow> a \<noteq> NaN \<Longrightarrow> lt a c"
  by (cases a; cases b; cases c) simp_all

lemma lt_not_lt_trans: "lt a b \<Longrightarrow> \<not> lt c b \<Longrightarrow> c \<noteq> NaN \<Longrightarrow> lt a c"
  by (cases a; cases b; cases c) simp_all


section \<open>Numbers as strings\<close>

lemma is_digit_digit_char: "d < 10 \<Longrightarrow> is_digit (digit_char d)"
  by (simp add: is_digit_def digit_char_def)

lemma digit_val_digit_char: "d < 10 \<Longrightarrow> digit_val (digit_char d) = d"
  by (simp add: digit_val_def digit_char_def)

lemma digits_all_digits: "c \<in> set (digits n) \<Longrightarrow> is_digit c"
proof (induction n arbitrary: c rule: digits.induct)
  case (1 n)
  show ?case
  proof (cases "n < 10")
    case True
    with "1.prems" show ?thesis
      by (subst (asm) digits.simps) (simp add: is_digit_digit_char)
  next
    case False
    with "1.prems" "1.IH" show ?thesis
      by (subst (asm) digits.simps) (auto simp: is_digit_digit_char)
  qed
qed

lemma digits_nonempty: "digits n \<noteq> []"
  by (subst digits.simps) simp

lemma digits_value_snoc: "digits_value (ds @ [c]) = 10 * digits_value ds + int (digit_val c)"
  by (simp add: digits_value_def)

lemma digits_value_digits: "0 \<le> n \<Longrightarrow> digits_value (digits n) = n"
proof (induction n rule: digits.induct)
  case (1 n)
  show ?case
  proof (cases "n < 10")
    case True
    with "1.prems" show ?thesis
      by (subst digits.simps) (simp add: digits_value_def digit_val_digit_char)
  next
    case False
    with "1.IH" "1.prems" show ?thesis
      by (subst digits.simps) (simp add: digits_value_snoc digit_val_digit_char)
  qed
qed

lemma digits_value_zeros:
  "digits_value (ds @ replicate j CHR ''0'') = digits_value ds * 10 ^ j"
proof (induction j)
  case 0
  then show ?case by simp
next
  case (Suc j)
  have "ds @ replicate (Suc j) CHR ''0'' = (ds @ replicate j CHR ''0'') @ [CHR ''0'']"
    by (simp add: replicate_append_same)
  then show ?case using Suc by (simp only: digits_value_snoc) (simp add: digit_val_def)
qed

lemma length_digits_bounds:
  "1 \<le> n \<Longrightarrow> 10 ^ (length (digits n) - 1) \<le> n \<and> n < 10 ^ length (digits n)"
proof (induction n rule: digits.induct)
  case (1 n)
  show ?case
  proof (cases "n < 10")
    case True
    with "1.prems" show ?thesis by (subst (1 2) digits.simps) simp
  next
    case False
    then have d1: "1 \<le> n div 10" by simp
    from "1.IH" [OF False d1]
    have ih: "10 ^ (length (digits (n div 10)) - 1) \<le> n div 10"
             "n div 10 < 10 ^ length (digits (n div 10))" by simp_all
    have len: "length (digits n) = Suc (length (digits (n div 10)))"
      using False by (subst digits.simps) simp
    have pos: "0 < length (digits (n div 10))" using digits_nonempty [of "n div 10"] by simp
    have "10 * 10 ^ (length (digits (n div 10)) - 1) \<le> 10 * (n div 10)" using ih(1) by simp
    also have "\<dots> \<le> n" by simp
    finally have lo: "10 ^ length (digits (n div 10)) \<le> n"
      using pos by (cases "length (digits (n div 10))") simp_all
    have "n div 10 + 1 \<le> 10 ^ length (digits (n div 10))" using ih(2) by simp
    then have "10 * (n div 10) + 10 \<le> 10 * 10 ^ length (digits (n div 10))" by simp
    moreover have "n < 10 * (n div 10) + 10" by simp
    ultimately have hi: "n < 10 * 10 ^ length (digits (n div 10))" by linarith
    show ?thesis using lo hi by (simp add: len)
  qed
qed

lemma dec_exp_bounds:
  assumes "1 \<le> r"
  shows "1 \<le> dec_exp r \<and> 10 ^ nat (dec_exp r - 1) \<le> r \<and> r < 10 ^ nat (dec_exp r)"
proof -
  define n where "n = \<lfloor>r\<rfloor>"
  define L where "L = length (digits n)"
  have n1: "1 \<le> n" using assms by (simp add: n_def le_floor_iff)
  from length_digits_bounds [OF n1]
  have b: "10 ^ (L - 1) \<le> n" "n < 10 ^ L" by (simp_all add: L_def)
  have L1: "1 \<le> L" using digits_nonempty [of n] by (cases "digits n") (simp_all add: L_def)
  have de: "dec_exp r = int L" using assms by (simp add: dec_exp_def n_def L_def)
  have "(of_int (10 ^ (L - 1)) :: real) \<le> of_int n" using b(1) by (simp only: of_int_le_iff)
  also have "\<dots> \<le> r" unfolding n_def by linarith
  finally have lo: "10 ^ (L - 1) \<le> r" by simp
  have "n + 1 \<le> 10 ^ L" using b(2) by simp
  then have "(of_int (n + 1) :: real) \<le> of_int (10 ^ L)" by (simp only: of_int_le_iff)
  moreover have "r < of_int (n + 1)" unfolding n_def by linarith
  ultimately have hi: "r < 10 ^ L" by simp
  have nat1: "nat (int L - 1) = L - 1" by simp
  show ?thesis using L1 lo hi by (simp add: de nat1)
qed

lemma fl_pow10:
  assumes "n \<le> 22"
  shows "fl (10 ^ n) = Num (10 ^ n)"
proof -
  have eq: "(10::real) ^ n = of_int (5 ^ n) * 2 powi (int n)"
  proof -
    have "(10::real) ^ n = (5 * 2) ^ n" by simp
    also have "\<dots> = 5 ^ n * 2 ^ n" by (rule power_mult_distrib)
    finally show ?thesis by simp
  qed
  have "(5::int) ^ n \<le> 5 ^ 22" using assms by (intro power_increasing) auto
  then have m: "\<bar>(5::int) ^ n\<bar> < 2 ^ 53" by simp
  have "(10::real) ^ n \<le> 10 ^ 22" using assms by (intro power_increasing) auto
  also have "\<dots> < 2 powi 1024" by simp
  finally have fin: "\<bar>(10::real) ^ n\<bar> < 2 powi 1024" by simp
  show ?thesis using eq m fin by (intro fl_exact [of _ "5 ^ n" "int n"]) simp_all
qed

lemma digits_candidate_Some:
  assumes "digits_candidate r n k = Some s"
  shows "fl (of_int s * 10 powi (n - k)) = Num r
         \<and> (s = \<lfloor>r / 10 powi (n - k)\<rfloor> \<or> s = \<lfloor>r / 10 powi (n - k)\<rfloor> + 1)"
  using assms by (auto simp: digits_candidate_def Let_def split: if_splits)

lemma digits_candidate_exact:
  assumes "fl (of_int \<lfloor>r / 10 powi (n - k)\<rfloor> * 10 powi (n - k)) = Num r"
  shows "digits_candidate r n k \<noteq> None"
  using assms by (simp add: digits_candidate_def Let_def)

lemma find_upto_least:
  "List.find P [a..b] = Some k \<Longrightarrow> a \<le> j \<Longrightarrow> j \<le> b \<Longrightarrow> P j \<Longrightarrow> k \<le> j"
proof (induction "nat (b - a + 1)" arbitrary: a)
  case 0
  then show ?case by simp
next
  case (Suc d)
  have ab: "a \<le> b" using Suc.prems by simp
  have up: "[a..b] = a # [a + 1..b]" using ab by (simp add: upto_rec1)
  show ?case
  proof (cases "P a")
    case True
    then have "k = a" using Suc.prems(1) by (simp add: up)
    then show ?thesis using Suc.prems by simp
  next
    case False
    then have f: "List.find P [a + 1..b] = Some k" using Suc.prems(1) by (simp add: up)
    have "j \<noteq> a" using False Suc.prems(4) by auto
    then have j: "a + 1 \<le> j" using Suc.prems(2) by simp
    have d: "d = nat (b - (a + 1) + 1)" using Suc.hyps(2) by simp
    from Suc.hyps(1) [OF d f j Suc.prems(3,4)] show ?thesis .
  qed
qed

lemma find_upto_Some:
  assumes "a \<le> j" "j \<le> b" "P j"
  shows "\<exists>k. List.find P [a..b] = Some k \<and> a \<le> k \<and> k \<le> j \<and> P k"
proof -
  have "j \<in> set [a..b]" using assms by simp
  then have "List.find P [a..b] \<noteq> None" using assms(3) by (auto simp: find_None_iff)
  then obtain k where k: "List.find P [a..b] = Some k" by auto
  then have "P k" "k \<in> set [a..b]" by (auto simp: find_Some_iff)
  moreover have "k \<le> j" using find_upto_least [OF k assms] .
  ultimately show ?thesis using k by auto
qed

text \<open>
  The decimal printed for a positive integer below \<open>10^21\<close> that is a double: a run of
  digits that \<open>parseInt\<close> reads back as the same double.
\<close>

lemma shortest_integer:
  assumes dbl: "fl r = Num r" and r1: "1 \<le> r" and int: "r = of_int \<lfloor>r\<rfloor>"
      and small: "r < 10 ^ 21"
  shows "\<exists>s k n. shortest r = (s, k, n) \<and> 1 \<le> s \<and> 1 \<le> k \<and> k \<le> n \<and> n \<le> 21
           \<and> fl (of_int s * 10 ^ nat (n - k)) = Num r"
proof -
  define n where "n = dec_exp r"
  from dec_exp_bounds [OF r1]
  have n1: "1 \<le> n" and lo: "10 ^ nat (n - 1) \<le> r" and hi: "r < 10 ^ nat n"
    by (simp_all add: n_def)
  have n21: "n \<le> 21"
  proof (rule ccontr)
    assume "\<not> n \<le> 21"
    then have "21 \<le> nat (n - 1)" by simp
    then have "(10::real) ^ 21 \<le> 10 ^ nat (n - 1)" by (intro power_increasing) auto
    with lo small show False by linarith
  qed
  let ?P = "\<lambda>k. digits_candidate r n k \<noteq> None"
  have "?P n"
  proof (rule digits_candidate_exact)
    have "of_int \<lfloor>r / 10 powi (n - n)\<rfloor> * 10 powi (n - n) = (of_int \<lfloor>r\<rfloor> :: real)" by simp
    also have "\<dots> = r" by (rule int [symmetric])
    finally show "fl (of_int \<lfloor>r / 10 powi (n - n)\<rfloor> * 10 powi (n - n)) = Num r"
      using dbl by (simp only:)
  qed
  with find_upto_Some [of 1 n "max 17 n" ?P] n1
  obtain k where k: "List.find ?P [1..max 17 n] = Some k" "1 \<le> k" "k \<le> n" "?P k"
    by auto
  then obtain s where s: "digits_candidate r n k = Some s" by auto
  from digits_candidate_Some [OF s]
  have fls: "fl (of_int s * 10 powi (n - k)) = Num r"
    and sv: "s = \<lfloor>r / 10 powi (n - k)\<rfloor> \<or> s = \<lfloor>r / 10 powi (n - k)\<rfloor> + 1" by auto
  have pw: "(10::real) powi (n - k) = 10 ^ nat (n - k)" using k(3) by (simp add: power_int_def)
  have "(10::real) ^ nat (n - k) \<le> 10 ^ nat (n - 1)" using k(2,3) by (intro power_increasing) auto
  with lo have "10 ^ nat (n - k) \<le> r" by linarith
  then have "1 \<le> r / 10 ^ nat (n - k)" by (simp add: field_simps)
  then have fl1: "1 \<le> \<lfloor>r / 10 powi (n - k)\<rfloor>" by (simp add: pw le_floor_iff)
  have s1: "1 \<le> s"
    using sv
  proof
    assume "s = \<lfloor>r / 10 powi (n - k)\<rfloor>"
    with fl1 show ?thesis by linarith
  next
    assume "s = \<lfloor>r / 10 powi (n - k)\<rfloor> + 1"
    with fl1 show ?thesis by linarith
  qed
  have notpow: "s \<noteq> 10 ^ nat k"
  proof
    assume "s = 10 ^ nat k"
    then have "of_int s * (10::real) ^ nat (n - k) = 10 ^ (nat k + nat (n - k))"
      by (simp add: power_add)
    also have "nat k + nat (n - k) = nat n" using k(2,3) by simp
    finally have "fl (10 ^ nat n) = Num r" using fls pw by simp
    moreover have "fl (10 ^ nat n) = Num (10 ^ nat n)" using n21 by (intro fl_pow10) simp
    ultimately show False using hi by simp
  qed
  have "shortest r = (s, k, n)"
    using k(1) s notpow by (simp add: shortest_def Let_def n_def [symmetric])
  then show ?thesis using s1 k(2,3) n21 fls pw by auto
qed

lemma positive_integer_string:
  assumes dbl: "fl r = Num r" and r1: "1 \<le> r" and int: "r = of_int \<lfloor>r\<rfloor>"
      and small: "r < 10 ^ 21"
  shows "positive_to_string r \<noteq> [] \<and> (\<forall>c \<in> set (positive_to_string r). is_digit c)
         \<and> parse_digits (positive_to_string r) = Num r"
proof -
  from shortest_integer [OF assms]
  obtain s k n where sh: "shortest r = (s, k, n)" and s1: "1 \<le> s" and k1: "1 \<le> k"
    and kn: "k \<le> n" and n21: "n \<le> 21" and fls: "fl (of_int s * 10 ^ nat (n - k)) = Num r"
    by blast
  have str: "positive_to_string r = digits s @ replicate (nat (n - k)) CHR ''0''"
    using kn n21 by (simp add: positive_to_string_def sh format_decimal_def Let_def)
  have z: "is_digit CHR ''0''" by (simp add: is_digit_def)
  have s0: "0 \<le> s" using s1 by simp
  have v: "digits_value (positive_to_string r) = s * 10 ^ nat (n - k)"
    by (simp add: str digits_value_zeros digits_value_digits [OF s0])
  have p: "parse_digits (positive_to_string r) = Num r"
    using fls by (simp add: parse_digits_def v)
  show ?thesis
    using digits_nonempty [of s] digits_all_digits [of _ s] z p
    by (auto simp: str)
qed

section \<open>Chunk keys: string form and parsing\<close>

lemma takeWhile_digits:
  assumes "\<forall>c \<in> set ds. is_digit c" "rest = [] \<or> \<not> is_digit (hd rest)"
  shows "takeWhile is_digit (ds @ rest) = ds"
    and "dropWhile is_digit (ds @ rest) = rest"
  using assms by (cases rest; simp add: takeWhile_append dropWhile_append; fail)+

lemma match_int_digits:
  assumes "ds \<noteq> []" "\<forall>c \<in> set ds. is_digit c" "rest = [] \<or> \<not> is_digit (hd rest)"
  shows "match_int (ds @ rest) = Some (parse_digits ds, rest)"
    and "match_int (CHR ''-'' # ds @ rest) = Some (fneg (parse_digits ds), rest)"
proof -
  obtain c cs where cs: "ds = c # cs" using assms(1) by (cases ds) auto
  have "is_digit c" using assms(2) cs by simp
  then have "c \<noteq> CHR ''-''" by (auto simp: is_digit_def)
  with cs show "match_int (ds @ rest) = Some (parse_digits ds, rest)"
    using takeWhile_digits [OF assms(2,3)] by (simp add: match_int_def)
  show "match_int (CHR ''-'' # ds @ rest) = Some (fneg (parse_digits ds), rest)"
    using takeWhile_digits [OF assms(2,3)] assms(1) by (simp add: match_int_def)
qed

lemma match_int_number:
  assumes "integer_index a" "rest = [] \<or> \<not> is_digit (hd rest)"
  shows "match_int (number_to_string a @ rest) = Some (a, rest)"
proof -
  from assms(1) obtain r where a: "a = Num r" and dbl: "fl r = Num r"
    and int: "r = of_int \<lfloor>r\<rfloor>" and small: "\<bar>r\<bar> < 10 ^ 21"
    by (cases a) (auto simp: integer_index_def is_double_def)
  consider "r = 0" | "0 < r" | "r < 0" by linarith
  then show ?thesis
  proof cases
    case 1
    have z: "\<forall>c \<in> set ''0''. is_digit c" by (simp add: is_digit_def)
    have "parse_digits ''0'' = Num 0"
      by (simp add: parse_digits_def digits_value_def digit_val_def fl_zero)
    with match_int_digits(1) [OF _ z assms(2)] show ?thesis by (simp add: a 1)
  next
    case 2
    have "0 < \<lfloor>r\<rfloor>" using 2 int by (metis of_int_0_less_iff)
    then have "1 \<le> \<lfloor>r\<rfloor>" by simp
    then have "(of_int 1 :: real) \<le> of_int \<lfloor>r\<rfloor>" by (simp only: of_int_le_iff)
    then have r1: "1 \<le> r" using int by simp
    from positive_integer_string [OF dbl r1 int] small
    have p: "positive_to_string r \<noteq> []" "\<forall>c \<in> set (positive_to_string r). is_digit c"
      "parse_digits (positive_to_string r) = Num r" by auto
    from match_int_digits(1) [OF p(1,2) assms(2)] p(3) show ?thesis using 2 by (simp add: a)
  next
    case 3
    have dbl': "fl (- r) = Num (- r)" using fl_minus [of r] dbl by simp
    have int': "- r = of_int \<lfloor>- r\<rfloor>"
    proof -
      have "- r = of_int (- \<lfloor>r\<rfloor>)" using int by simp
      then show ?thesis by (metis floor_of_int)
    qed
    have "0 < \<lfloor>- r\<rfloor>" using 3 int' by (metis of_int_0_less_iff neg_0_less_iff_less)
    then have "1 \<le> \<lfloor>- r\<rfloor>" by simp
    then have "(of_int 1 :: real) \<le> of_int \<lfloor>- r\<rfloor>" by (simp only: of_int_le_iff)
    then have r1: "1 \<le> - r" using int' by simp
    from positive_integer_string [OF dbl' r1 int'] small
    have p: "positive_to_string (- r) \<noteq> []" "\<forall>c \<in> set (positive_to_string (- r)). is_digit c"
      "parse_digits (positive_to_string (- r)) = Num (- r)" by auto
    from match_int_digits(2) [OF p(1,2) assms(2)] p(3) show ?thesis using 3 by (simp add: a)
  qed
qed

lemma fromString_toString:
  assumes "layerId k \<noteq> []" "CHR '':'' \<notin> set (layerId k)"
      and "integer_index (cx k)" "integer_index (cy k)" "integer_index (cz k)"
  shows "ChunkUtils_fromString (ChunkUtils_toString k) = Some k"
proof -
  have tw: "takeWhile (\<lambda>c. c \<noteq> CHR '':'') (layerId k @ CHR '':'' # r) = layerId k"
       "dropWhile (\<lambda>c. c \<noteq> CHR '':'') (layerId k @ CHR '':'' # r) = CHR '':'' # r" for r
    using assms(2) by (simp_all add: takeWhile_append dropWhile_append)
  have nd: "\<not> is_digit CHR '',''" by (simp add: is_digit_def)
  have m1: "match_int (number_to_string a @ CHR '','' # r) = Some (a, CHR '','' # r)"
    if "integer_index a" for a r
    using match_int_number [OF that, of "CHR '','' # r"] nd by simp
  have m2: "match_int (number_to_string a) = Some (a, [])" if "integer_index a" for a
    using match_int_number [OF that, of "[]"] by simp
  show ?thesis
    using assms(1)
    by (simp add: ChunkUtils_fromString_def ChunkUtils_toString_def tw m1 [OF assms(3)]
        m1 [OF assms(4)] m2 [OF assms(5)] expect_char_def)
qed

section \<open>Entity store: the eviction loop and \<open>addContract\<close>\<close>

lemma evict_loop_Nil_pos: "0 < m \<Longrightarrow> evict_loop e m [] w = Some w"
  by (subst evict_loop.simps) simp

lemma evict_loop_Cons:
  "evict_loop e m (c # cs) w =
     (if m \<le> real (Suc (length cs))
      then evict_loop e m cs (snd (removeContractInternal e c w)) else Some w)"
  by (subst evict_loop.simps) simp

lemma evict_loop_Some_pos:
  assumes "evict_loop e m xs w = Some r"
  shows "xs = [] \<longrightarrow> 0 < m"
  apply (rule evict_loop.raw_induct [OF _ assms])
  apply (auto split: if_splits list.splits)
  done

lemma evict_loop_spins: "m \<le> 0 \<Longrightarrow> evict_loop e m [] w = None"
  using evict_loop_Some_pos [of e m "[]" w] by (cases "evict_loop e m [] w") auto

lemma evict_loop_pos:
  assumes "0 < m"
  shows "evict_loop e m xs w =
           Some (foldl (\<lambda>v c. snd (removeContractInternal e c v)) w
                   (take (length xs - (nat \<lceil>m\<rceil> - 1)) xs))"
proof (induction xs arbitrary: w)
  case Nil
  then show ?case using assms by (simp add: evict_loop_Nil_pos)
next
  case (Cons c cs)
  show ?case
  proof (cases "m \<le> real (Suc (length cs))")
    case True
    then have "\<lceil>m\<rceil> \<le> int (Suc (length cs))" by (simp add: ceiling_le_iff)
    then have "nat \<lceil>m\<rceil> - 1 \<le> length cs" by linarith
    then have "Suc (length cs) - (nat \<lceil>m\<rceil> - 1) = Suc (length cs - (nat \<lceil>m\<rceil> - 1))"
      by simp
    with True Cons.IH show ?thesis by (simp add: evict_loop_Cons)
  next
    case False
    then have "real (Suc (length cs)) < m" by simp
    then have "int (Suc (length cs)) < \<lceil>m\<rceil>" by (simp add: less_ceiling_iff)
    then have "Suc (length cs) - (nat \<lceil>m\<rceil> - 1) = 0" by linarith
    with False show ?thesis by (simp add: evict_loop_Cons)
  qed
qed

lemma removeContractInternal_present:
  assumes "entities w e = Some cs" "c \<in> set cs"
  shows "entities (snd (removeContractInternal e c w)) = (entities w)(e \<mapsto> remove1 c cs)"
    and "hookLog (snd (removeContractInternal e c w)) = hookLog w @ [ContractRemoveHook e c]"
    and "t \<noteq> contract_type c \<Longrightarrow>
           contractIndex (snd (removeContractInternal e c w)) t = contractIndex w t"
    and "e \<notin> set (getEntitiesWithContract (snd (removeContractInternal e c w)) (contract_type c))"
  using assms
  by (auto simp: removeContractInternal_def Let_def getEntitiesWithContract_def split: option.splits)

lemma evict_fold:
  assumes "entities w e = Some cs"
      and "filter (\<lambda>d. contract_type d = K) cs = rs @ rest"
  shows "\<exists>cs'. entities (foldl (\<lambda>v c. snd (removeContractInternal e c v)) w rs)
                  = (entities w)(e \<mapsto> cs')
              \<and> filter (\<lambda>d. contract_type d = K) cs' = rest
              \<and> (\<forall>T. T \<noteq> K \<longrightarrow> filter (\<lambda>d. contract_type d = T) cs'
                                   = filter (\<lambda>d. contract_type d = T) cs)
              \<and> hookLog (foldl (\<lambda>v c. snd (removeContractInternal e c v)) w rs)
                  = hookLog w @ map (ContractRemoveHook e) rs"
  using assms
proof (induction rs arbitrary: w cs)
  case Nil
  then show ?case by (auto intro!: exI [of _ cs])
next
  case (Cons r rs)
  let ?w1 = "snd (removeContractInternal e r w)"
  from Cons.prems(2) have rin: "r \<in> set (filter (\<lambda>d. contract_type d = K) cs)" by simp
  then have r: "r \<in> set cs" "contract_type r = K" by auto
  have e1: "entities ?w1 = (entities w)(e \<mapsto> remove1 r cs)"
    and h1: "hookLog ?w1 = hookLog w @ [ContractRemoveHook e r]"
    using removeContractInternal_present [OF Cons.prems(1) r(1)] by auto
  have f1: "filter (\<lambda>d. contract_type d = K) (remove1 r cs) = rs @ rest"
    using Cons.prems(2) by (simp add: filter_remove1)
  have f2: "filter (\<lambda>d. contract_type d = T) (remove1 r cs) = filter (\<lambda>d. contract_type d = T) cs"
    if "T \<noteq> K" for T
    using that r(2) by (simp add: filter_remove1 remove1_idem)
  from e1 have e1': "entities ?w1 e = Some (remove1 r cs)" by simp
  from Cons.IH [OF e1' f1] obtain cs' where
    IH: "entities (foldl (\<lambda>v c. snd (removeContractInternal e c v)) ?w1 rs) = (entities ?w1)(e \<mapsto> cs')"
        "filter (\<lambda>d. contract_type d = K) cs' = rest"
        "\<forall>T. T \<noteq> K \<longrightarrow> filter (\<lambda>d. contract_type d = T) cs' = filter (\<lambda>d. contract_type d = T) (remove1 r cs)"
        "hookLog (foldl (\<lambda>v c. snd (removeContractInternal e c v)) ?w1 rs) = hookLog ?w1 @ map (ContractRemoveHook e) rs"
    by blast
  show ?case
    using IH f2 e1 h1 by (intro exI [of _ cs']) simp
qed

lemma find_filter:
  "find P xs = (case filter P xs of [] \<Rightarrow> None | a # _ \<Rightarrow> Some a)"
  by (induction xs) auto

lemma checkLimits_below:
  assumes "real (length (filter (\<lambda>d. contract_type d = K) cs)) < getMaxContractsAllowed K clc"
  shows "checkLimits K cs clc"
  using assms
  by (auto simp: checkLimits_def getMaxContractsAllowed_def Let_def split: option.splits)


lemma kept_count_less:
  assumes "0 < (N::real)"
  shows "real (n - (n - (nat \<lceil>N\<rceil> - 1))) < N"
proof -
  have "n - (n - (nat \<lceil>N\<rceil> - 1)) \<le> nat \<lceil>N\<rceil> - 1" by simp
  moreover have "real (nat \<lceil>N\<rceil> - 1) < N" using assms by linarith
  ultimately show ?thesis by linarith
qed

lemma addContract_effect:
  assumes ent: "entities w e = Some cs"
      and val: "validate c = Inr vc"
      and N: "N = getMaxContractsAllowed (contract_type vc) (getContract w e ''contract_limit'')"
      and pos: "0 < N"
      and olds: "olds = filter (\<lambda>d. contract_type d = contract_type vc) cs"
      and k: "k = length olds - (nat \<lceil>N\<rceil> - 1)"
  shows "\<exists>w' cs'. addContract e c w = Returns () w'
           \<and> entities w' = (entities w)(e \<mapsto> cs')
           \<and> filter (\<lambda>d. contract_type d = contract_type vc) cs' = drop k olds @ [vc]
           \<and> (\<forall>T. T \<noteq> contract_type vc \<longrightarrow>
                 filter (\<lambda>d. contract_type d = T) cs' = filter (\<lambda>d. contract_type d = T) cs)
           \<and> hookLog w' = hookLog w @ map (ContractRemoveHook e) (take k olds)
                             @ [ContractAddHook e vc]
           \<and> e \<in> set (getEntitiesWithContract w' (contract_type vc))"
proof -
  let ?K = "contract_type vc"
  let ?w1 = "foldl (\<lambda>v c. snd (removeContractInternal e c v)) w (take k olds)"
  have ev: "evict_loop e N olds w = Some ?w1"
    using evict_loop_pos [OF pos] k by simp
  have split: "filter (\<lambda>d. contract_type d = ?K) cs = take k olds @ drop k olds"
    using olds by simp
  from evict_fold [OF ent split] obtain cs1 where
    c1: "entities ?w1 = (entities w)(e \<mapsto> cs1)"
        "filter (\<lambda>d. contract_type d = ?K) cs1 = drop k olds"
        "\<forall>T. T \<noteq> ?K \<longrightarrow> filter (\<lambda>d. contract_type d = T) cs1
                             = filter (\<lambda>d. contract_type d = T) cs"
        "hookLog ?w1 = hookLog w @ map (ContractRemoveHook e) (take k olds)"
    by blast
  have gc: "getContracts ?w1 e = cs1" using c1(1) by (simp add: getContracts_def)
  have "real (length (drop k olds)) < N"
    using kept_count_less [OF pos, of "length olds"] k by simp
  then have chk: "checkLimits ?K cs1 (getContract w e ''contract_limit'')"
    using c1(2) N by (intro checkLimits_below) simp
  let ?w2 = "?w1\<lparr>entities := (entities ?w1)(e \<mapsto> cs1 @ [vc])\<rparr>"
  let ?w3 = "index_add ?K e ?w2"
  let ?w' = "?w3\<lparr>hookLog := hookLog ?w3 @ [ContractAddHook e vc]\<rparr>"
  have run: "addContract e c w = Returns () ?w'"
    using ent val ev gc chk N olds by (simp add: addContract_def Let_def)
  have p1: "entities ?w' = (entities w)(e \<mapsto> cs1 @ [vc])"
    using c1(1) by (simp add: index_add_def Let_def)
  have p2: "hookLog ?w' = hookLog w @ map (ContractRemoveHook e) (take k olds)
                            @ [ContractAddHook e vc]"
    using c1(4) by (simp add: index_add_def Let_def)
  have p3: "e \<in> set (getEntitiesWithContract ?w' ?K)"
    by (simp add: index_add_def Let_def getEntitiesWithContract_def)
  have p4: "filter (\<lambda>d. contract_type d = ?K) (cs1 @ [vc]) = drop k olds @ [vc]"
    using c1(2) by simp
  have p5: "\<forall>T. T \<noteq> ?K \<longrightarrow> filter (\<lambda>d. contract_type d = T) (cs1 @ [vc])
                                  = filter (\<lambda>d. contract_type d = T) cs"
    using c1(3) by simp
  show ?thesis
    using run p1 p2 p3 p4 p5 by blast
qed

lemma getMaxContractsAllowed_pos:
  assumes "\<And>ls. limits_of clc = Some ls \<Longrightarrow> list_all (\<lambda>l. 0 < snd l) ls"
  shows "0 < getMaxContractsAllowed t clc"
proof (cases "limits_of clc")
  case None
  then show ?thesis
    by (auto simp: getMaxContractsAllowed_def globalLimits_def MAX_SAFE_INTEGER_def
        split: option.splits if_splits)
next
  case (Some ls)
  show ?thesis
  proof (cases "find (\<lambda>l. fst l = t) ls")
    case None
    with Some show ?thesis
      by (auto simp: getMaxContractsAllowed_def globalLimits_def MAX_SAFE_INTEGER_def
          split: option.splits if_splits)
  next
    case (Some l)
    then have "l \<in> set ls" by (auto simp: find_Some_iff)
    with assms [OF \<open>limits_of clc = Some ls\<close>] have "0 < snd l" by (simp add: list_all_iff)
    with Some \<open>limits_of clc = Some ls\<close> show ?thesis
      by (simp add: getMaxContractsAllowed_def)
  qed
qed




text \<open>
  C2. The inverted index and the per-entity contract sets are meant to agree:
  \<open>getContract(E, K)\<close> finds a contract exactly when \<open>E\<close> is listed under \<open>K\<close>. The
  code breaks this for an entity holding two contracts of one kind: after
  \<open>removeContract\<close> drops the first, the second is still found by \<open>getContract\<close> but
  the entity is gone from the index.
\<close>

theorem index_lost_after_removeContract:
  "query_after
     [CreateEntity ''e'' [], AddContract ''e'' (Portable True None),
      AddContract ''e'' (Portable False None), RemoveContract ''e'' ''portable'']
     ''e'' ''portable'' = Some (Some (Portable False None))
   \<and> index_after
     [CreateEntity ''e'' [], AddContract ''e'' (Portable True None),
      AddContract ''e'' (Portable False None), RemoveContract ''e'' ''portable'']
     ''portable'' = Some []"
  by code_simp

text \<open>
  C5. Validation is meant to reject a durability record whose health exceeds its
  maxHealth. The code's \<open>validate\<close> parses with the union schema, whose durability slot
  is the unrefined base object: the record with health 10 and maxHealth 5 is accepted,
  \<open>addContract\<close> stores it and \<open>getContract\<close> returns it, although the refined
  \<open>DurabilitySchema\<close> rejects it.
\<close>

theorem validate_accepts_health_above_maxHealth:
  "validate (Durability 10 5 None) = Inr (Durability 10 5 None)
   \<and> \<not> DurabilitySchema 10 5 None
   \<and> query_after [CreateEntity ''e'' [], AddContract ''e'' (Durability 10 5 None)]
        ''e'' ''durability'' = Some (Some (Durability 10 5 None))"
  by code_simp

lemma getContract_type: "getContract w e t = Some c \<Longrightarrow> contract_type c = t"
  by (auto simp: getContract_def find_Some_iff split: option.splits)

lemma getContract_entity: "getContract w e t = Some c \<Longrightarrow> \<exists>cs. entities w e = Some cs \<and> c \<in> set cs"
  by (auto simp: getContract_def find_Some_iff split: option.splits)

section \<open>Entity store: every stored contract passed the schema\<close>

lemma validate_idem: "validate c = Inr vc \<Longrightarrow> validate vc = Inr vc"
  by (cases c) (auto simp: validate_def split: if_splits option.splits)

lemma removeContractInternal_entities:
  "entities (snd (removeContractInternal e c w)) e' = Some cs' \<Longrightarrow>
     \<exists>cs. entities w e' = Some cs \<and> set cs' \<subseteq> set cs"
  by (auto simp: removeContractInternal_def Let_def split: option.splits if_splits
      dest: set_remove1_subset [THEN subsetD])

lemma removeContractInternal_valid:
  "stored_valid w \<Longrightarrow> stored_valid (snd (removeContractInternal e c w))"
proof -
  assume v: "stored_valid w"
  show ?thesis
    unfolding stored_valid_def
  proof (intro allI impI)
    fix e' cs' d
    assume "entities (snd (removeContractInternal e c w)) e' = Some cs'" "d \<in> set cs'"
    with removeContractInternal_entities [of e c w e' cs']
    obtain cs where "entities w e' = Some cs" "d \<in> set cs" by auto
    with v show "validate d = Inr d" by (auto simp: stored_valid_def)
  qed
qed

lemma fold_remove_valid:
  "stored_valid w \<Longrightarrow> stored_valid (foldl (\<lambda>v c. snd (removeContractInternal e c v)) w cs)"
  by (induction cs arbitrary: w) (simp_all add: removeContractInternal_valid)

lemma evict_loop_valid:
  assumes "evict_loop e m xs w = Some w'" "stored_valid w"
  shows "stored_valid w'"
proof (cases "0 < m")
  case True
  with assms(1) have "w' = foldl (\<lambda>v c. snd (removeContractInternal e c v)) w
                             (take (length xs - (nat \<lceil>m\<rceil> - 1)) xs)"
    by (simp add: evict_loop_pos)
  with assms(2) show ?thesis by (simp only: fold_remove_valid)
next
  case False
  have "stored_valid w \<longrightarrow> stored_valid w'"
    by (rule evict_loop.raw_induct [OF _ assms(1)])
       (auto split: if_splits list.splits simp: removeContractInternal_valid)
  with assms show ?thesis by simp
qed

lemma addContract_valid:
  assumes "stored_valid w" "state_of (addContract e c w) = Some w'"
  shows "stored_valid w'"
proof (cases "entities w e")
  case None
  with assms show ?thesis by (simp add: addContract_def state_of_def)
next
  case (Some cs)
  show ?thesis
  proof (cases "validate c")
    case (Inl err)
    with Some assms show ?thesis by (simp add: addContract_def state_of_def)
  next
    case (Inr vc)
    let ?m = "getMaxContractsAllowed (contract_type vc) (getContract w e ''contract_limit'')"
    let ?olds = "filter (\<lambda>d. contract_type d = contract_type vc) cs"
    show ?thesis
    proof (cases "evict_loop e ?m ?olds w")
      case None
      with Some Inr assms show ?thesis by (simp add: addContract_def state_of_def Let_def)
    next
      case (Some w1)
      have v1: "stored_valid w1" by (rule evict_loop_valid [OF Some assms(1)])
      have vv: "validate vc = Inr vc" by (rule validate_idem [OF Inr])
      have v2: "stored_valid
                  (index_add (contract_type vc) e
                     (w1\<lparr>entities := (entities w1)(e \<mapsto> getContracts w1 e @ [vc])\<rparr>)
                   \<lparr>hookLog := hl\<rparr>)" for hl
      proof -
        have g: "validate d = Inr d" if "d \<in> set (getContracts w1 e)" for d
          using v1 that by (cases "entities w1 e") (auto simp: stored_valid_def getContracts_def)
        show ?thesis
          unfolding stored_valid_def
          using v1 vv g
          by (auto simp: stored_valid_def index_add_def Let_def split: if_splits)
      qed
      from assms(2) \<open>entities w e = Some cs\<close> Inr Some v1 v2 show ?thesis
        by (auto simp: addContract_def state_of_def Let_def split: if_splits)
    qed
  qed
qed

lemma addContracts_valid:
  "stored_valid w \<Longrightarrow> state_of (addContracts e cs w) = Some w' \<Longrightarrow> stored_valid w'"
proof (induction cs arbitrary: w)
  case Nil
  then show ?case by (simp add: state_of_def)
next
  case (Cons c cs)
  show ?case
  proof (cases "addContract e c w")
    case (Returns u w1)
    then have "stored_valid w1"
      using addContract_valid [OF Cons.prems(1), of e c w1] by (simp add: state_of_def)
    with Cons.IH [of w1] Cons.prems(2) Returns show ?thesis by simp
  next
    case (Throws err w1)
    then have "stored_valid w1"
      using addContract_valid [OF Cons.prems(1), of e c w1] by (simp add: state_of_def)
    with Cons.prems(2) Throws show ?thesis by (simp add: state_of_def)
  next
    case Diverges
    with Cons.prems(2) show ?thesis by (simp add: state_of_def)
  qed
qed

lemma createEntity_valid:
  assumes "stored_valid w" "state_of (createEntity e cs w) = Some w'"
  shows "stored_valid w'"
proof (cases "entities w e")
  case (Some a)
  with assms show ?thesis by (simp add: createEntity_def state_of_def)
next
  case None
  let ?w0 = "w\<lparr>entities := (entities w)(e \<mapsto> [])\<rparr>"
  have v0: "stored_valid ?w0" using assms(1) by (auto simp: stored_valid_def)
  show ?thesis
  proof (cases "addContracts e cs ?w0")
    case (Returns u w1)
    then have "stored_valid w1"
      using addContracts_valid [OF v0, of e cs w1] by (simp add: state_of_def)
    then have "stored_valid (w1\<lparr>hookLog := hl\<rparr>)" for hl by (simp add: stored_valid_def)
    with assms(2) None Returns show ?thesis by (auto simp: createEntity_def state_of_def)
  next
    case (Throws err w1)
    then have "stored_valid w1"
      using addContracts_valid [OF v0, of e cs w1] by (simp add: state_of_def)
    with assms(2) None Throws show ?thesis by (auto simp: createEntity_def state_of_def)
  next
    case Diverges
    with assms(2) None show ?thesis by (simp add: createEntity_def state_of_def)
  qed
qed

lemma removeEntity_valid: "stored_valid w \<Longrightarrow> stored_valid (snd (removeEntity e w))"
proof -
  assume v: "stored_valid w"
  show ?thesis
  proof (cases "entities w e")
    case None
    with v show ?thesis by (simp add: removeEntity_def)
  next
    case (Some cs)
    let ?w1 = "foldl (\<lambda>v c. snd (removeContractInternal e c v)) w cs"
    have "stored_valid ?w1" by (rule fold_remove_valid [OF v])
    then have "stored_valid (?w1\<lparr>entities := (entities ?w1)(e := None), hookLog := hl\<rparr>)" for hl
      by (auto simp: stored_valid_def split: if_splits)
    with Some show ?thesis by (simp add: removeEntity_def Let_def)
  qed
qed

lemma removeContract_valid: "stored_valid w \<Longrightarrow> stored_valid (snd (removeContract e t w))"
  by (simp add: removeContract_def removeContractInternal_valid split: option.splits)

lemma apply_op_valid: "stored_valid w \<Longrightarrow> apply_op opn w = Some w' \<Longrightarrow> stored_valid w'"
proof (cases opn)
  case (CreateEntity e cs)
  then show "stored_valid w \<Longrightarrow> apply_op opn w = Some w' \<Longrightarrow> stored_valid w'"
    using createEntity_valid [of w e cs w'] by simp
next
  case (RemoveEntity e)
  then show "stored_valid w \<Longrightarrow> apply_op opn w = Some w' \<Longrightarrow> stored_valid w'"
    using removeEntity_valid [of w e] by auto
next
  case (AddContract e c)
  then show "stored_valid w \<Longrightarrow> apply_op opn w = Some w' \<Longrightarrow> stored_valid w'"
    using addContract_valid [of w e c w'] by simp
next
  case (RemoveContract e t)
  then show "stored_valid w \<Longrightarrow> apply_op opn w = Some w' \<Longrightarrow> stored_valid w'"
    using removeContract_valid [of w e t] by auto
qed

lemma run_ops_valid: "stored_valid w \<Longrightarrow> run_ops ops w = Some w' \<Longrightarrow> stored_valid w'"
proof (induction ops arbitrary: w)
  case Nil
  then show ?case by simp
next
  case (Cons opn ops)
  from Cons.prems(2) obtain w1 where a: "apply_op opn w = Some w1" and r: "run_ops ops w1 = Some w'"
    by (auto split: option.splits)
  from apply_op_valid [OF Cons.prems(1) a] have "stored_valid w1" .
  from Cons.IH [OF this r] show ?case .
qed

lemma reachable_stored_valid: "run_ops ops createECSWorld = Some w \<Longrightarrow> stored_valid w"
  by (rule run_ops_valid [of createECSWorld]) (simp_all add: stored_valid_def createECSWorld_def)

lemma stored_valid_mobility:
  assumes "stored_valid w" "getContract w e t = Some (Mobility p v ms acc)"
  shows "Vec3Schema p \<and> opt_positive_number ms"
proof -
  from getContract_entity [OF assms(2)] assms(1)
  have "validate (Mobility p v ms acc) = Inr (Mobility p v ms acc)"
    by (auto simp: stored_valid_def)
  then show ?thesis by (simp add: validate_def split: if_splits)
qed

lemma stored_valid_durability:
  assumes "stored_valid w" "getContract w e t = Some (Durability h m a)"
  shows "DurabilityObjectSchema h m a"
proof -
  from getContract_entity [OF assms(2)] assms(1)
  have "validate (Durability h m a) = Inr (Durability h m a)"
    by (auto simp: stored_valid_def)
  then show ?thesis by (simp add: validate_def split: if_splits)
qed

lemma stored_valid_limit_pos:
  assumes "stored_valid w"
  shows "0 < getMaxContractsAllowed t (getContract w e ''contract_limit'')"
proof (rule getMaxContractsAllowed_pos)
  fix ls assume l: "limits_of (getContract w e ''contract_limit'') = Some ls"
  then have g: "getContract w e ''contract_limit'' = Some (ContractLimit ls)"
    by (auto simp: limits_of_def split: option.splits contract.splits)
  from getContract_entity [OF g] assms
  have "validate (ContractLimit ls) = Inr (ContractLimit ls)" by (auto simp: stored_valid_def)
  then show "list_all (\<lambda>l. 0 < snd l) ls" by (simp add: validate_def split: if_splits)
qed

section \<open>Entity store: the index lists only holders\<close>

text \<open>
  One half of the agreement between index and store holds at every reachable state: an
  id listed under a type holds a contract of that type. The converse is the half that
  \<open>removeContractInternal\<close> breaks.
\<close>

lemma find_remove1_other: "\<not> P c \<Longrightarrow> find P (remove1 c cs) = find P cs"
  by (induction cs) auto

lemma removeContractInternal_sound:
  assumes s: "index_sound w"
  shows "index_sound (snd (removeContractInternal e c w))"
proof (cases "entities w e")
  case None
  with s show ?thesis by (simp add: removeContractInternal_def)
next
  case (Some cs)
  show ?thesis
  proof (cases "c \<in> set cs")
    case False
    with Some s show ?thesis by (simp add: removeContractInternal_def)
  next
    case True
    let ?w' = "snd (removeContractInternal e c w)"
    have ent: "entities ?w' = (entities w)(e \<mapsto> remove1 c cs)"
      using removeContractInternal_present(1) [OF Some True] .
    have idx_other: "contractIndex ?w' t = contractIndex w t" if "t \<noteq> contract_type c" for t
      using removeContractInternal_present(3) [OF Some True that] .
    have idx_same: "set (getEntitiesWithContract ?w' (contract_type c))
                      \<subseteq> set (getEntitiesWithContract w (contract_type c)) - {e}"
      using Some True
      by (auto simp: removeContractInternal_def Let_def getEntitiesWithContract_def
          split: option.splits if_splits)
    show ?thesis
      unfolding index_sound_def
    proof (intro allI impI)
      fix t e' assume m: "e' \<in> set (getEntitiesWithContract ?w' t)"
      show "getContract ?w' e' t \<noteq> None"
      proof (cases "t = contract_type c")
        case True
        with m idx_same have "e' \<in> set (getEntitiesWithContract w t)" "e' \<noteq> e" by auto
        with s have "getContract w e' t \<noteq> None" by (simp add: index_sound_def)
        with \<open>e' \<noteq> e\<close> ent show ?thesis by (simp add: getContract_def)
      next
        case False
        with m idx_other [of t] have "e' \<in> set (getEntitiesWithContract w t)"
          by (simp add: getEntitiesWithContract_def)
        with s have g: "getContract w e' t \<noteq> None" by (simp add: index_sound_def)
        show ?thesis
        proof (cases "e' = e")
          case True
          with g Some False ent show ?thesis
            by (simp add: getContract_def find_remove1_other)
        next
          case False
          with g ent show ?thesis by (simp add: getContract_def)
        qed
      qed
    qed
  qed
qed

lemma fold_remove_sound:
  "index_sound w \<Longrightarrow> index_sound (foldl (\<lambda>v c. snd (removeContractInternal e c v)) w cs)"
  by (induction cs arbitrary: w) (simp_all add: removeContractInternal_sound)

lemma evict_loop_sound:
  assumes "evict_loop e m xs w = Some w'" "index_sound w"
  shows "index_sound w'"
proof -
  have "index_sound w \<longrightarrow> index_sound w'"
    by (rule evict_loop.raw_induct [OF _ assms(1)])
       (auto split: if_splits list.splits simp: removeContractInternal_sound)
  with assms show ?thesis by simp
qed

lemma find_append_Some: "find P xs \<noteq> None \<Longrightarrow> find P (xs @ ys) \<noteq> None"
  by (induction xs) auto

lemma find_append_last: "P a \<Longrightarrow> find P (xs @ [a]) \<noteq> None"
  by (induction xs) auto

lemma addContract_sound:
  assumes "index_sound w" "state_of (addContract e c w) = Some w'"
  shows "index_sound w'"
proof (cases "entities w e")
  case None
  with assms show ?thesis by (simp add: addContract_def state_of_def)
next
  case (Some cs)
  show ?thesis
  proof (cases "validate c")
    case (Inl err)
    with Some assms show ?thesis by (simp add: addContract_def state_of_def)
  next
    case (Inr vc)
    let ?K = "contract_type vc"
    let ?m = "getMaxContractsAllowed ?K (getContract w e ''contract_limit'')"
    let ?olds = "filter (\<lambda>d. contract_type d = ?K) cs"
    show ?thesis
    proof (cases "evict_loop e ?m ?olds w")
      case None
      with Some Inr assms show ?thesis by (simp add: addContract_def state_of_def Let_def)
    next
      case (Some w1)
      have s1: "index_sound w1" by (rule evict_loop_sound [OF Some assms(1)])
      let ?w2 = "w1\<lparr>entities := (entities w1)(e \<mapsto> getContracts w1 e @ [vc])\<rparr>"
      have s3: "index_sound (index_add ?K e ?w2\<lparr>hookLog := hl\<rparr>)" for hl
        unfolding index_sound_def
      proof (intro allI impI)
        fix t e'
        assume m: "e' \<in> set (getEntitiesWithContract (index_add ?K e ?w2\<lparr>hookLog := hl\<rparr>) t)"
        show "getContract (index_add ?K e ?w2\<lparr>hookLog := hl\<rparr>) e' t \<noteq> None"
        proof (cases "e' = e")
          case True
          show ?thesis
          proof (cases "t = ?K")
            case True
            with \<open>e' = e\<close> show ?thesis
              using find_append_last [of "\<lambda>c. contract_type c = ?K" vc "getContracts w1 e"]
              by (simp add: getContract_def index_add_def Let_def)
          next
            case False
            with m True have "e \<in> set (getEntitiesWithContract w1 t)"
              by (simp add: getEntitiesWithContract_def index_add_def Let_def)
            with s1 have "getContract w1 e t \<noteq> None" by (simp add: index_sound_def)
            then have "find (\<lambda>c. contract_type c = t) (getContracts w1 e) \<noteq> None"
              by (simp add: getContract_def getContracts_def split: option.splits)
            from find_append_Some [OF this] True show ?thesis
              by (simp add: getContract_def index_add_def Let_def)
          qed
        next
          case False
          with m have "e' \<in> set (getEntitiesWithContract w1 t)"
            by (auto simp: getEntitiesWithContract_def index_add_def Let_def
                split: if_splits option.splits)
          with s1 have "getContract w1 e' t \<noteq> None" by (simp add: index_sound_def)
          with False show ?thesis by (simp add: getContract_def index_add_def Let_def)
        qed
      qed
      from assms(2) \<open>entities w e = Some cs\<close> Inr Some s1 s3 show ?thesis
        by (auto simp: addContract_def state_of_def Let_def split: if_splits)
    qed
  qed
qed

lemma addContracts_sound:
  "index_sound w \<Longrightarrow> state_of (addContracts e cs w) = Some w' \<Longrightarrow> index_sound w'"
proof (induction cs arbitrary: w)
  case Nil
  then show ?case by (simp add: state_of_def)
next
  case (Cons c cs)
  show ?case
  proof (cases "addContract e c w")
    case (Returns u w1)
    then have "index_sound w1"
      using addContract_sound [OF Cons.prems(1), of e c w1] by (simp add: state_of_def)
    with Cons.IH [of w1] Cons.prems(2) Returns show ?thesis by simp
  next
    case (Throws err w1)
    then have "index_sound w1"
      using addContract_sound [OF Cons.prems(1), of e c w1] by (simp add: state_of_def)
    with Cons.prems(2) Throws show ?thesis by (simp add: state_of_def)
  next
    case Diverges
    with Cons.prems(2) show ?thesis by (simp add: state_of_def)
  qed
qed

lemma index_sound_absent:
  "index_sound w \<Longrightarrow> entities w e = None \<Longrightarrow> e \<notin> set (getEntitiesWithContract w t)"
proof
  assume s: "index_sound w" and n: "entities w e = None"
    and m: "e \<in> set (getEntitiesWithContract w t)"
  from s m have "getContract w e t \<noteq> None" unfolding index_sound_def by blast
  with n show False by (simp add: getContract_def)
qed

lemma createEntity_sound:
  assumes "index_sound w" "state_of (createEntity e cs w) = Some w'"
  shows "index_sound w'"
proof (cases "entities w e")
  case (Some a)
  with assms show ?thesis by (simp add: createEntity_def state_of_def)
next
  case None
  let ?w0 = "w\<lparr>entities := (entities w)(e \<mapsto> [])\<rparr>"
  have s0: "index_sound ?w0"
    unfolding index_sound_def
  proof (intro allI impI)
    fix t e' assume "e' \<in> set (getEntitiesWithContract ?w0 t)"
    then have m: "e' \<in> set (getEntitiesWithContract w t)" by (simp add: getEntitiesWithContract_def)
    with index_sound_absent [OF assms(1) None] have "e' \<noteq> e" by auto
    with m assms(1) show "getContract ?w0 e' t \<noteq> None"
      by (simp add: index_sound_def getContract_def)
  qed
  have hl: "index_sound (v\<lparr>hookLog := h\<rparr>)" if "index_sound v" for v h
    using that by (simp add: index_sound_def getContract_def getEntitiesWithContract_def)
  show ?thesis
  proof (cases "addContracts e cs ?w0")
    case (Returns u w1)
    then have "index_sound w1"
      using addContracts_sound [OF s0, of e cs w1] by (simp add: state_of_def)
    with assms(2) None Returns hl show ?thesis by (auto simp: createEntity_def state_of_def)
  next
    case (Throws err w1)
    then have "index_sound w1"
      using addContracts_sound [OF s0, of e cs w1] by (simp add: state_of_def)
    with assms(2) None Throws show ?thesis by (auto simp: createEntity_def state_of_def)
  next
    case Diverges
    with assms(2) None show ?thesis by (simp add: createEntity_def state_of_def)
  qed
qed

lemma fold_remove_all:
  assumes "entities w e = Some cs"
  shows "entities (foldl (\<lambda>v c. snd (removeContractInternal e c v)) w cs) e = Some []"
  using assms
proof (induction cs arbitrary: w)
  case Nil
  then show ?case by simp
next
  case (Cons c cs)
  have "entities (snd (removeContractInternal e c w)) e = Some cs"
    using removeContractInternal_present(1) [OF Cons.prems, of c] by simp
  from Cons.IH [OF this] show ?case by simp
qed

lemma removeEntity_sound:
  assumes s: "index_sound w"
  shows "index_sound (snd (removeEntity e w))"
proof (cases "entities w e")
  case None
  with s show ?thesis by (simp add: removeEntity_def)
next
  case (Some cs)
  let ?w1 = "foldl (\<lambda>v c. snd (removeContractInternal e c v)) w cs"
  have s1: "index_sound ?w1" by (rule fold_remove_sound [OF s])
  have e1: "entities ?w1 e = Some []" by (rule fold_remove_all [OF Some])
  have notin: "e \<notin> set (getEntitiesWithContract ?w1 t)" for t
  proof
    assume "e \<in> set (getEntitiesWithContract ?w1 t)"
    with s1 have "getContract ?w1 e t \<noteq> None" unfolding index_sound_def by blast
    with e1 show False by (simp add: getContract_def)
  qed
  have "index_sound (?w1\<lparr>entities := (entities ?w1)(e := None), hookLog := hl\<rparr>)" for hl
    unfolding index_sound_def
  proof (intro allI impI)
    fix t e'
    assume "e' \<in> set (getEntitiesWithContract
                        (?w1\<lparr>entities := (entities ?w1)(e := None), hookLog := hl\<rparr>) t)"
    then have m: "e' \<in> set (getEntitiesWithContract ?w1 t)"
      by (simp add: getEntitiesWithContract_def)
    with notin [of t] have "e' \<noteq> e" by auto
    with m s1 show "getContract (?w1\<lparr>entities := (entities ?w1)(e := None), hookLog := hl\<rparr>) e' t
                      \<noteq> None"
      by (simp add: index_sound_def getContract_def)
  qed
  with Some show ?thesis by (simp add: removeEntity_def Let_def)
qed

lemma removeContract_sound: "index_sound w \<Longrightarrow> index_sound (snd (removeContract e t w))"
  by (simp add: removeContract_def removeContractInternal_sound split: option.splits)

lemma apply_op_sound: "index_sound w \<Longrightarrow> apply_op opn w = Some w' \<Longrightarrow> index_sound w'"
proof (cases opn)
  case (CreateEntity e cs)
  then show "index_sound w \<Longrightarrow> apply_op opn w = Some w' \<Longrightarrow> index_sound w'"
    using createEntity_sound [of w e cs w'] by simp
next
  case (RemoveEntity e)
  then show "index_sound w \<Longrightarrow> apply_op opn w = Some w' \<Longrightarrow> index_sound w'"
    using removeEntity_sound [of w e] by auto
next
  case (AddContract e c)
  then show "index_sound w \<Longrightarrow> apply_op opn w = Some w' \<Longrightarrow> index_sound w'"
    using addContract_sound [of w e c w'] by simp
next
  case (RemoveContract e t)
  then show "index_sound w \<Longrightarrow> apply_op opn w = Some w' \<Longrightarrow> index_sound w'"
    using removeContract_sound [of w e t] by auto
qed

lemma run_ops_sound: "index_sound w \<Longrightarrow> run_ops ops w = Some w' \<Longrightarrow> index_sound w'"
proof (induction ops arbitrary: w)
  case Nil
  then show ?case by simp
next
  case (Cons opn ops)
  from Cons.prems(2) obtain w1 where a: "apply_op opn w = Some w1" and r: "run_ops ops w1 = Some w'"
    by (auto split: option.splits)
  from apply_op_sound [OF Cons.prems(1) a] have "index_sound w1" .
  from Cons.IH [OF this r] show ?case .
qed

lemma reachable_index_sound:
  "run_ops ops createECSWorld = Some w \<Longrightarrow> e \<in> set (getEntitiesWithContract w t)
     \<Longrightarrow> getContract w e t \<noteq> None"
proof -
  assume r: "run_ops ops createECSWorld = Some w" and m: "e \<in> set (getEntitiesWithContract w t)"
  have "index_sound createECSWorld"
    by (simp add: index_sound_def createECSWorld_def getEntitiesWithContract_def)
  from run_ops_sound [OF this r] m show ?thesis by (simp add: index_sound_def)
qed

section \<open>Durability: damage\<close>

lemma removeEntity_absent: "entities (snd (removeEntity e w)) e = None"
  by (simp add: removeEntity_def Let_def split: option.splits)

lemma calculateActualDamage_formula:
  assumes "opt_nonnegative a"
  shows "calculateActualDamage amount a
           = amount * (1 - min (75 / 100) ((1 / 100) * (case a of None \<Rightarrow> 0 | Some v \<Rightarrow> v)))"
  using assms
  by (auto simp: calculateActualDamage_def opt_nonnegative_def Let_def min_def mult.commute
      split: option.splits)

text \<open>
  Under the default limit of one durability record, the write-back of \<open>damage\<close>
  replaces the record, in exact arithmetic on the health values: with
  \<open>actual = amount * (1 - min(0.75, 0.01 * a))\<close> and \<open>health' = max(0, h - actual)\<close>, a
  call with \<open>actual \<le> 0\<close> returns false and changes nothing; otherwise it returns
  true, records a damage event carrying \<open>actual\<close>, and either destroys the entity
  (\<open>health' = 0\<close>) or leaves it with the durability record of health \<open>health'\<close>.
\<close>

lemma damage_default_limit:
  assumes dur: "getContract (dur_ecsWorld sys) e ''durability'' = Some (Durability h m a)"
      and valid: "DurabilityObjectSchema h m a"
      and lim: "getMaxContractsAllowed ''durability''
                  (getContract (dur_ecsWorld sys) e ''contract_limit'') = 1"
  shows "let actual = amount * (1 - min (75 / 100)
                                     ((1 / 100) * (case a of None \<Rightarrow> 0 | Some v \<Rightarrow> v)));
             h' = max 0 (h - actual)
         in (actual \<le> 0 \<longrightarrow> damage e amount source now sys = Returns False sys)
          \<and> (0 < actual \<longrightarrow>
               (\<exists>sys'. damage e amount source now sys = Returns True sys'
                  \<and> damageEvents sys' = damageEvents sys
                       @ [\<lparr>dmg_entityId = e, dmg_damage = actual, dmg_source = source,
                           dmg_timestamp = now\<rparr>]
                  \<and> (h' = 0 \<longrightarrow> entities (dur_ecsWorld sys') e = None
                        \<and> destroyEvents sys' = destroyEvents sys
                             @ [\<lparr>dst_entityId = e, dst_cause = CauseDamage,
                                 dst_source = source, dst_timestamp = now\<rparr>])
                  \<and> (h' \<noteq> 0 \<longrightarrow> entities (dur_ecsWorld sys') e \<noteq> None
                        \<and> getContract (dur_ecsWorld sys') e ''durability''
                            = Some (Durability h' m a)
                        \<and> destroyEvents sys' = destroyEvents sys)))"
proof -
  define actual where
    "actual = amount * (1 - min (75 / 100) ((1 / 100) * (case a of None \<Rightarrow> 0 | Some v \<Rightarrow> v)))"
  define h' where "h' = max 0 (h - actual)"
  have an: "opt_nonnegative a" and mpos: "0 < m"
    using valid by (auto simp: DurabilityObjectSchema_def)
  have cad: "calculateActualDamage amount a = actual"
    using calculateActualDamage_formula [OF an] by (simp add: actual_def)
  have noop: "damage e amount source now sys = Returns False sys" if "actual \<le> 0"
    using dur cad that by (simp add: damage_def Let_def)
  have hit: "\<exists>sys'. damage e amount source now sys = Returns True sys'
                  \<and> damageEvents sys' = damageEvents sys
                       @ [\<lparr>dmg_entityId = e, dmg_damage = actual, dmg_source = source,
                           dmg_timestamp = now\<rparr>]
                  \<and> (h' = 0 \<longrightarrow> entities (dur_ecsWorld sys') e = None
                        \<and> destroyEvents sys' = destroyEvents sys
                             @ [\<lparr>dst_entityId = e, dst_cause = CauseDamage,
                                 dst_source = source, dst_timestamp = now\<rparr>])
                  \<and> (h' \<noteq> 0 \<longrightarrow> entities (dur_ecsWorld sys') e \<noteq> None
                        \<and> getContract (dur_ecsWorld sys') e ''durability''
                            = Some (Durability h' m a)
                        \<and> destroyEvents sys' = destroyEvents sys)"
    if act: "0 < actual"
  proof -
    let ?ev = "\<lparr>dmg_entityId = e, dmg_damage = actual, dmg_source = source,
                 dmg_timestamp = now\<rparr>"
    let ?sys1 = "sys\<lparr>damageEvents := damageEvents sys @ [?ev]\<rparr>"
    let ?w = "dur_ecsWorld sys"
    obtain cs where cs: "entities ?w e = Some cs"
      using getContract_entity [OF dur] by blast
    have h'0: "0 \<le> h'" by (simp add: h'_def)
    have val: "validate (Durability h' m a) = Inr (Durability h' m a)"
      using an mpos h'0 by (simp add: validate_def DurabilityObjectSchema_def)
    have N: "1 = getMaxContractsAllowed (contract_type (Durability h' m a))
                   (getContract ?w e ''contract_limit'')"
      using lim by simp
    from addContract_effect [OF cs val N _ refl refl]
    obtain w' cs' where
      r: "addContract e (Durability h' m a) ?w = Returns () w'"
         "entities w' = (entities ?w)(e \<mapsto> cs')"
         "filter (\<lambda>d. contract_type d = ''durability'') cs' = [Durability h' m a]"
      by auto
    have q: "getContract w' e ''durability'' = Some (Durability h' m a)"
      using r(2,3) by (simp add: getContract_def find_filter)
    let ?sys2 = "?sys1\<lparr>dur_ecsWorld := w'\<rparr>"
    let ?sys' = "if h' \<le> 0 then destroyEntity e CauseDamage source now ?sys2 else ?sys2"
    have run: "damage e amount source now sys = Returns True ?sys'"
      using dur cad act r(1) by (simp add: damage_def Let_def h'_def)
    have ev: "damageEvents ?sys' = damageEvents sys @ [?ev]"
      by (simp add: destroyEntity_def Let_def)
    have d0: "entities (dur_ecsWorld ?sys') e = None
              \<and> destroyEvents ?sys' = destroyEvents sys
                   @ [\<lparr>dst_entityId = e, dst_cause = CauseDamage,
                       dst_source = source, dst_timestamp = now\<rparr>]" if "h' = 0"
      using that by (simp add: destroyEntity_def Let_def removeEntity_absent)
    have d1: "entities (dur_ecsWorld ?sys') e \<noteq> None
              \<and> getContract (dur_ecsWorld ?sys') e ''durability'' = Some (Durability h' m a)
              \<and> destroyEvents ?sys' = destroyEvents sys" if "h' \<noteq> 0"
    proof -
      from that h'0 have "\<not> h' \<le> 0" by simp
      then show ?thesis using q r(2) by simp
    qed
    show ?thesis using run ev d0 d1 by blast
  qed
  show ?thesis
    unfolding Let_def actual_def [symmetric] h'_def [symmetric]
    using noop hit by blast
qed

lemma damage_default_limit_block:
  "returned (damage ''b'' 4 None 0 block_system) = Some True
   \<and> observed_durability (damage ''b'' 4 None 0 block_system) ''b''
       = Some (Some (Durability 3 5 (Some 50)))"
  by code_simp

text \<open>
  C6. An entity is created with a contract-limit override that allows two durability
  records, and with one durability record of health 5 (maximum 5, no armour).
  \<open>damage\<close> by 1 returns true and records a damage event of 1, but its write-back adds
  the record of health 4 beside the old one, so the durability query still returns
  health 5. A second \<open>damage\<close> by 1 reads health 5 again, evicts the old record and
  leaves two records of health 4: after two recorded damages of 1 the queried health
  is 4, not 3.
\<close>

theorem damage_write_back_lost:
  "durability_after
     [CreateEntity ''e'' [ContractLimit [(''durability'', 2)], Durability 5 5 None]]
     [(''e'', 1)] ''e''
     = Some ([True], Some (Durability 5 5 None),
             [Durability 5 5 None, Durability 4 5 None], [1])
   \<and> durability_after
       [CreateEntity ''e'' [ContractLimit [(''durability'', 2)], Durability 5 5 None]]
       [(''e'', 1), (''e'', 1)] ''e''
       = Some ([True, True], Some (Durability 4 5 None),
               [Durability 4 5 None, Durability 4 5 None], [1, 1])"
  by code_simp

section \<open>Movement: affected chunks and the static loop\<close>

lemma set_add_fold_set: "set (foldl set_add acc xs) = set acc \<union> set xs"
  by (induction xs arbitrary: acc) (auto simp: set_add_def)

lemma set_add_fold_map:
  assumes "inj_on f (set acc \<union> set xs)"
  shows "foldl set_add (map f acc) (map f xs) = map f (foldl set_add acc xs)"
  using assms
proof (induction xs arbitrary: acc)
  case Nil
  then show ?case by simp
next
  case (Cons a xs)
  have mem: "f a \<in> f ` set acc \<longleftrightarrow> a \<in> set acc"
    using Cons.prems by (auto simp: inj_on_def)
  have step: "set_add (map f acc) (f a) = map f (set_add acc a)"
    using mem by (simp add: set_add_def)
  have "inj_on f (set (set_add acc a) \<union> set xs)"
    using Cons.prems by (auto simp: set_add_def intro: inj_on_subset)
  from Cons.IH [OF this] step show ?case by simp
qed

lemma parse_keys_map:
  assumes "\<And>k. k \<in> set ks \<Longrightarrow> ChunkUtils_fromString (ChunkUtils_toString k) = Some k"
  shows "parse_keys (map ChunkUtils_toString ks) = Inr ks"
  using assms by (induction ks) auto

lemma parse_keys_cases:
  "parse_keys ss = Inl InvalidChunkKey \<or> (\<exists>ks. parse_keys ss = Inr ks)"
  by (induction ss) (auto split: option.splits sum.splits)

lemma getChunksForMovement_cases:
  "getChunksForMovement reg startPos endPos = Inl InvalidChunkKey
   \<or> (\<exists>ks. getChunksForMovement reg startPos endPos = Inr ks)"
  unfolding getChunksForMovement_def Let_def by (rule parse_keys_cases)

lemma integer_key_roundtrip:
  "default_key k \<Longrightarrow> integer_key k \<Longrightarrow> ChunkUtils_fromString (ChunkUtils_toString k) = Some k"
proof -
  assume "default_key k" and ik: "integer_key k"
  then have l: "layerId k = ''default''" by (simp add: default_key_def)
  have "layerId k \<noteq> []" "CHR '':'' \<notin> set (layerId k)" unfolding l by simp_all
  then show ?thesis using ik by (intro fromString_toString) (simp_all add: integer_key_def)
qed

lemma toString_inj_integer: "inj_on ChunkUtils_toString {k. default_key k \<and> integer_key k}"
proof (rule inj_onI)
  fix a b assume a: "a \<in> {k. default_key k \<and> integer_key k}"
    and b: "b \<in> {k. default_key k \<and> integer_key k}"
    and eq: "ChunkUtils_toString a = ChunkUtils_toString b"
  have ra: "ChunkUtils_fromString (ChunkUtils_toString a) = Some a"
    using a by (simp add: integer_key_roundtrip)
  have rb: "ChunkUtils_fromString (ChunkUtils_toString b) = Some b"
    using b by (simp add: integer_key_roundtrip)
  from ra rb eq show "a = b" by (metis option.inject)
qed

lemma keyFromPos_default: "default_key (keyFromPos reg ''default'' p sz)"
  by (simp add: keyFromPos_def default_key_def ChunkUtils_create_def Let_def worldToChunk_def)

lemma neighbors_default:
  "default_key c \<Longrightarrow> k \<in> set (getNeighboringChunks c r) \<Longrightarrow> default_key k"
  by (auto simp: getNeighboringChunks_def default_key_def ChunkUtils_create_def)

lemma movement_chunks_default:
  assumes "k \<in> set (movement_chunks reg startPos endPos)"
  shows "default_key k"
proof -
  from assms have "k \<in> set (keyFromPos reg ''default'' startPos None
                      # keyFromPos reg ''default'' endPos None
                      # getNeighboringChunks (keyFromPos reg ''default'' startPos None) 1)"
    unfolding movement_chunks_def Let_def by (simp only: set_add_fold_set) simp
  then show ?thesis
    using keyFromPos_default neighbors_default [OF keyFromPos_default] by auto
qed

text \<open>
  When every collected key has integer indices printed without exponent, the detour
  through the strings gives the keys back.
\<close>

lemma getChunksForMovement_integer:
  assumes "\<And>k. k \<in> set (movement_chunks reg startPos endPos) \<Longrightarrow> integer_key k"
  shows "getChunksForMovement reg startPos endPos = Inr (movement_chunks reg startPos endPos)"
proof -
  let ?s = "keyFromPos reg ''default'' startPos None"
  let ?e = "keyFromPos reg ''default'' endPos None"
  let ?ks = "?s # ?e # getNeighboringChunks ?s 1"
  have mem: "set (movement_chunks reg startPos endPos) = set ?ks"
    unfolding movement_chunks_def Let_def by (simp only: set_add_fold_set) simp
  have dk: "default_key k \<and> integer_key k" if "k \<in> set ?ks" for k
    using that assms [of k] movement_chunks_default [of k reg startPos endPos] mem by blast
  have inj: "inj_on ChunkUtils_toString (set [] \<union> set ?ks)"
    by (rule inj_on_subset [OF toString_inj_integer]) (use dk in auto)
  have "foldl set_add [] (map ChunkUtils_toString ?ks)
          = map ChunkUtils_toString (foldl set_add [] ?ks)"
    using set_add_fold_map [OF inj] by simp
  moreover have "parse_keys (map ChunkUtils_toString (foldl set_add [] ?ks))
                   = Inr (foldl set_add [] ?ks)"
  proof (rule parse_keys_map, rule integer_key_roundtrip)
    fix k assume "k \<in> set (foldl set_add [] ?ks)"
    then have "k \<in> set ?ks" by (simp only: set_add_fold_set) simp
    then show "default_key k" "integer_key k" using dk by auto
  qed
  ultimately show ?thesis
    by (simp add: getChunksForMovement_def movement_chunks_def Let_def)
qed

lemma getChunk_grid:
  "solidGrid (fst (getChunk k now cm)) = grid_of cm (ChunkUtils_toString k)"
  "grid_of (snd (getChunk k now cm)) = grid_of cm"
  by (auto simp: getChunk_def grid_of_def Let_def fun_eq_iff split: option.splits)

lemma isSolid_grid: "solidGrid c1 = solidGrid c2 \<Longrightarrow> isSolid c1 = isSolid c2"
  by (auto simp: isSolid_def fun_eq_iff)

lemma checkStaticSolids_grid:
  assumes "grid_of cm1 = grid_of cm2"
  shows "fst (checkStaticSolids A D k n1 cm1) = fst (checkStaticSolids A D k n2 cm2)"
proof -
  obtain c1 m1 where g1: "getChunk k n1 cm1 = (c1, m1)" by (cases "getChunk k n1 cm1")
  obtain c2 m2 where g2: "getChunk k n2 cm2 = (c2, m2)" by (cases "getChunk k n2 cm2")
  have sg: "solidGrid c1 = solidGrid c2"
    using getChunk_grid(1) [of k n1 cm1] getChunk_grid(1) [of k n2 cm2] g1 g2 assms by simp
  have iss: "isSolid c1 = isSolid c2" by (rule isSolid_grid [OF sg])
  show ?thesis
    using sg by (simp add: checkStaticSolids_def g1 g2 iss Let_def split: option.splits)
qed

lemma checkStaticSolids_preserves:
  "grid_of (snd (checkStaticSolids A D k now cm)) = grid_of cm"
proof -
  obtain c m where g: "getChunk k now cm = (c, m)" by (cases "getChunk k now cm")
  then have "grid_of m = grid_of cm" using getChunk_grid(2) [of k now cm] by simp
  then show ?thesis
    by (simp add: checkStaticSolids_def g Let_def split: option.splits)
qed

lemma static_loop_fold:
  "fst (static_loop A D now ks c cm)
     = foldl closer c (map (\<lambda>k. fst (checkStaticSolids A D k now cm)) ks)"
proof (induction ks arbitrary: c cm)
  case Nil
  then show ?case by simp
next
  case (Cons k ks)
  obtain sc cm' where s: "checkStaticSolids A D k now cm = (sc, cm')"
    by (cases "checkStaticSolids A D k now cm")
  have g: "grid_of cm' = grid_of cm"
    using checkStaticSolids_preserves [of A D k now cm] s by simp
  have "map (\<lambda>k. fst (checkStaticSolids A D k now cm')) ks
          = map (\<lambda>k. fst (checkStaticSolids A D k now cm)) ks"
    using checkStaticSolids_grid [OF g] by simp
  with Cons.IH [of "closer c sc" cm'] s show ?case by simp
qed

section \<open>Movement: the closest collision\<close>

text \<open>
  The loops keep the current collision unless a candidate hit is strictly closer. The
  current distance never grows, and it stays what it was when it is NaN.
\<close>

lemma closer_cases:
  "closer c d = c \<or> (closer c d = d \<and> hit d \<and> lt (distance d) (distance c))"
  by (simp add: closer_def)

lemma foldl_closer_mem:
  "foldl closer c cs = c
   \<or> (foldl closer c cs \<in> set cs \<and> hit (foldl closer c cs)
       \<and> lt (distance (foldl closer c cs)) (distance c))"
proof (induction cs arbitrary: c)
  case Nil
  then show ?case by simp
next
  case (Cons d cs)
  show ?case
  proof (cases "hit d \<and> lt (distance d) (distance c)")
    case True
    then have cd: "closer c d = d" by (simp add: closer_def)
    from Cons.IH [of d] True cd show ?thesis by (auto intro: lt_trans)
  next
    case False
    then have cd: "closer c d = c" by (auto simp: closer_def)
    from Cons.IH [of c] cd show ?thesis by auto
  qed
qed

lemma foldl_closer_not_farther:
  "\<not> lt (distance c) (distance (foldl closer c cs))"
  using foldl_closer_mem [of c cs] lt_irrefl lt_trans by (metis)

lemma foldl_closer_min:
  "d \<in> set cs \<Longrightarrow> hit d \<Longrightarrow> \<not> lt (distance d) (distance (foldl closer c cs))"
proof (induction cs arbitrary: c)
  case Nil
  then show ?case by simp
next
  case (Cons a cs)
  show ?case
  proof (cases "d = a")
    case True
    show ?thesis
    proof
      assume l: "lt (distance d) (distance (foldl closer c (a # cs)))"
      let ?r = "foldl closer (closer c a) cs"
      from l have l': "lt (distance a) (distance ?r)" using True by simp
      consider "?r = closer c a" | "lt (distance ?r) (distance (closer c a))"
        using foldl_closer_mem [of "closer c a" cs] by blast
      then show False
      proof cases
        case 1
        with l' have la: "lt (distance a) (distance (closer c a))" by simp
        show False
        proof (cases "lt (distance a) (distance c)")
          case True
          with Cons.prems(2) \<open>d = a\<close> have "closer c a = a" by (simp add: closer_def)
          with la lt_irrefl show False by simp
        next
          case False
          then have "closer c a = c" by (simp add: closer_def)
          with la False show False by simp
        qed
      next
        case 2
        with l' have la: "lt (distance a) (distance (closer c a))" by (rule lt_trans)
        show False
        proof (cases "lt (distance a) (distance c)")
          case True
          with Cons.prems(2) \<open>d = a\<close> have "closer c a = a" by (simp add: closer_def)
          with la lt_irrefl show False by simp
        next
          case False
          then have "closer c a = c" by (simp add: closer_def)
          with la False show False by simp
        qed
      qed
    qed
  next
    case False
    with Cons.prems have "d \<in> set cs" by simp
    from Cons.IH [OF this Cons.prems(2)] show ?thesis by simp
  qed
qed

lemma foldl_closer_keep:
  assumes "\<And>d. d \<in> set cs \<Longrightarrow> hit d \<Longrightarrow> \<not> lt (distance d) (distance c)"
  shows "foldl closer c cs = c"
  using assms
proof (induction cs)
  case Nil
  then show ?case by simp
next
  case (Cons a cs)
  have "closer c a = c" using Cons.prems [of a] by (auto simp: closer_def)
  with Cons show ?case by simp
qed

lemma static_candidate_entityId: "entityId (fst (checkStaticSolids A D k now cm)) = None"
  by (simp add: checkStaticSolids_def no_hit_def Let_def split: prod.splits option.splits)

lemma performSweptAABB_throws:
  "getChunksForMovement (layerRegistry sys) startPos endPos = Inl err
   \<Longrightarrow> performSweptAABB e startPos endPos sb now sys = Throws err sys"
  by (simp add: performSweptAABB_def Let_def)

lemma performSweptAABB_eq:
  assumes "getChunksForMovement (layerRegistry sys) startPos endPos = Inr ks"
  shows "performSweptAABB e startPos endPos sb now sys =
     Returns
       (foldl closer
          (foldl closer
             \<lparr>hit = False, point = endPos, normal = vec3 0 1 0,
              distance = Vec3_length (Vec3_subtract endPos startPos), entityId = None\<rparr>
             (static_candidates (getEntityAABB sb startPos) (Vec3_subtract endPos startPos) now
                (chunkManager sys) ks))
          (dynamic_candidates (ecsWorld sys) (getEntityAABB sb startPos)
             (Vec3_subtract endPos startPos) e))
       (sys\<lparr>chunkManager :=
              snd (static_loop (getEntityAABB sb startPos) (Vec3_subtract endPos startPos) now
                     ks
                     \<lparr>hit = False, point = endPos, normal = vec3 0 1 0,
                      distance = Vec3_length (Vec3_subtract endPos startPos), entityId = None\<rparr>
                     (chunkManager sys))\<rparr>)"
proof -
  let ?A = "getEntityAABB sb startPos"
  let ?D = "Vec3_subtract endPos startPos"
  let ?c0 = "\<lparr>hit = False, point = endPos, normal = vec3 0 1 0,
              distance = Vec3_length ?D, entityId = None\<rparr>"
  obtain a cm' where sl: "static_loop ?A ?D now ks ?c0 (chunkManager sys) = (a, cm')"
    by (cases "static_loop ?A ?D now ks ?c0 (chunkManager sys)")
  have a: "a = foldl closer ?c0 (static_candidates ?A ?D now (chunkManager sys) ks)"
    using static_loop_fold [of ?A ?D now ks ?c0 "chunkManager sys"] sl
    by (simp add: static_candidates_def)
  have fo: "foldl (\<lambda>cur otherEntityId. closer cur (checkDynamicSolid w A D otherEntityId)) c es
              = foldl closer c (map (checkDynamicSolid w A D) es)" for w A D c es
    by (induction es arbitrary: c) simp_all
  show ?thesis
    by (simp add: performSweptAABB_def Let_def assms sl a [symmetric]
        dynamic_candidates_def fo)
qed

lemma performSweptAABB_cases:
  "performSweptAABB e startPos endPos sb now sys = Throws InvalidChunkKey sys
   \<or> (\<exists>c cm'. performSweptAABB e startPos endPos sb now sys
                 = Returns c (sys\<lparr>chunkManager := cm'\<rparr>))"
  using getChunksForMovement_cases [of "layerRegistry sys" startPos endPos]
    performSweptAABB_throws [of sys startPos endPos InvalidChunkKey e sb now]
    performSweptAABB_eq [of sys startPos endPos _ e sb now]
  by blast

lemma sweep_closest:
  assumes ks: "getChunksForMovement (layerRegistry sys) startPos endPos = Inr ks"
  shows "\<exists>r sys'. performSweptAABB e startPos endPos sb now sys = Returns r sys'
     \<and> (let D = Vec3_subtract endPos startPos;
             A = getEntityAABB sb startPos;
             statics = static_candidates A D now (chunkManager sys) ks;
             dynamics = dynamic_candidates (ecsWorld sys) A D e
         in (hit r \<longrightarrow> r \<in> set (statics @ dynamics) \<and> lt (distance r) (Vec3_length D))
          \<and> (\<not> hit r \<longrightarrow>
               (\<forall>c \<in> set (statics @ dynamics). hit c \<longrightarrow> \<not> lt (distance c) (Vec3_length D)))
          \<and> (\<forall>c \<in> set (statics @ dynamics). hit c \<longrightarrow> \<not> lt (distance c) (distance r))
          \<and> (\<forall>s \<in> set statics.
                hit s \<and> lt (distance s) (Vec3_length D)
                \<and> (\<forall>c \<in> set (statics @ dynamics). hit c \<longrightarrow> \<not> lt (distance c) (distance s))
                \<longrightarrow> r \<in> set statics \<and> entityId r = None))"
proof -
  define D where "D = Vec3_subtract endPos startPos"
  define A where "A = getEntityAABB sb startPos"
  define statics where "statics = static_candidates A D now (chunkManager sys) ks"
  define dynamics where "dynamics = dynamic_candidates (ecsWorld sys) A D e"
  define c0 where "c0 = \<lparr>hit = False, point = endPos, normal = vec3 0 1 0,
              distance = Vec3_length D, entityId = None\<rparr>"
  define a where "a = foldl closer c0 statics"
  define r where "r = foldl closer a dynamics"
  have rall: "r = foldl closer c0 (statics @ dynamics)" by (simp add: r_def a_def)
  obtain sys' where run: "performSweptAABB e startPos endPos sb now sys = Returns r sys'"
    using performSweptAABB_eq [OF ks, of e sb now]
    by (simp add: r_def a_def c0_def statics_def dynamics_def A_def D_def)
  have c0: "\<not> hit c0" "distance c0 = Vec3_length D" by (simp_all add: c0_def)
  have mem: "r = c0 \<or> (r \<in> set (statics @ dynamics) \<and> hit r \<and> lt (distance r) (distance c0))"
    unfolding rall by (rule foldl_closer_mem)
  have p1: "r \<in> set (statics @ dynamics) \<and> lt (distance r) (Vec3_length D)" if "hit r"
    using mem that c0 by auto
  have minr: "\<not> lt (distance c) (distance r)" if "c \<in> set (statics @ dynamics)" "hit c" for c
    unfolding rall using that by (rule foldl_closer_min)
  have p2: "\<not> lt (distance c) (Vec3_length D)"
    if "\<not> hit r" "c \<in> set (statics @ dynamics)" "hit c" for c
  proof -
    from mem that(1) have "r = c0" by auto
    with minr [OF that(2,3)] c0 show ?thesis by simp
  qed
  have p4: "r \<in> set statics \<and> entityId r = None"
    if s: "s \<in> set statics" "hit s" "lt (distance s) (Vec3_length D)"
      and least: "\<And>c. c \<in> set (statics @ dynamics) \<Longrightarrow> hit c \<Longrightarrow> \<not> lt (distance c) (distance s)"
    for s
  proof -
    have nsa: "\<not> lt (distance s) (distance a)"
      unfolding a_def using s(1,2) by (rule foldl_closer_min)
    with s(3) c0 have "a \<noteq> c0" by auto
    with foldl_closer_mem [of c0 statics]
    have ain: "a \<in> set statics" and alt: "lt (distance a) (distance c0)"
      by (auto simp: a_def)
    have sn: "distance s \<noteq> NaN" using lt_not_NaN [OF s(3)] by simp
    have "foldl closer a dynamics = a"
    proof (rule foldl_closer_keep)
      fix d assume d: "d \<in> set dynamics" "hit d"
      show "\<not> lt (distance d) (distance a)"
      proof
        assume "lt (distance d) (distance a)"
        then have "lt (distance d) (distance s)" using nsa sn by (rule lt_not_lt_trans)
        with least [of d] d show False by simp
      qed
    qed
    then have "r = a" by (simp add: r_def)
    with ain show ?thesis
      by (auto simp: statics_def static_candidates_def static_candidate_entityId)
  qed
  show ?thesis
    unfolding Let_def D_def [symmetric] A_def [symmetric] statics_def [symmetric]
      dynamics_def [symmetric]
    using run p1 p2 minr p4 by blast
qed

subsection \<open>Evaluating the arithmetic on small binary fractions\<close>

lemma fl_grid:
  assumes "r * 2 ^ 20 = of_int \<lfloor>r * 2 ^ 20\<rfloor>" "\<bar>r\<bar> \<le> 2 ^ 32"
  shows "fl r = Num r"
proof -
  define m where "m = \<lfloor>r * 2 ^ 20\<rfloor>"
  have r: "r = of_int m / 2 ^ 20" using assms(1) by (simp add: m_def field_simps)
  have "\<bar>r * 2 ^ 20\<bar> \<le> 2 ^ 32 * 2 ^ 20"
    using assms(2) by (simp add: abs_mult)
  then have "\<bar>(of_int m :: real)\<bar> \<le> 2 ^ 52" using assms(1) by (simp add: m_def)
  then have "(of_int \<bar>m\<bar> :: real) \<le> of_int (2 ^ 52)" by simp
  then have "\<bar>m\<bar> \<le> 2 ^ 52" by (simp only: of_int_le_iff)
  then have m53: "\<bar>m\<bar> < 2 ^ 53" by simp
  show ?thesis using fl_dyadic [of m 20] m53 by (simp add: r)
qed


lemma COLLISION_EPSILON_value:
  "COLLISION_EPSILON = Num (1152921504606847 / 1152921504606846976)"
  unfolding COLLISION_EPSILON_def
  using fl_nearest [of "- 10" "1 / 1000" 4611686018427388] by simp

lemma slab_epsilon_value:
  "fl (1 / 1000000000) = Num (4835703278458517 / 4835703278458516698824704)"
  using fl_nearest [of "- 30" "1 / 1000000000" 4835703278458517] by simp

lemma integer_index_of_int: "\<bar>n\<bar> \<le> 2 ^ 53 \<Longrightarrow> integer_index (Num (of_int n))"
proof -
  assume n: "\<bar>n\<bar> \<le> 2 ^ 53"
  then have "(of_int \<bar>n\<bar> :: real) \<le> of_int (2 ^ 53)" by (simp only: of_int_le_iff)
  then have "\<bar>(of_int n :: real)\<bar> \<le> 2 ^ 53" by simp
  also have "(2::real) ^ 53 < 10 ^ 21" by simp
  finally show ?thesis using fl_of_int [OF n] by (simp add: integer_index_def is_double_def)
qed

lemma fadd_of_int:
  "\<bar>a + b\<bar> \<le> 2 ^ 53 \<Longrightarrow> fadd (Num (of_int a)) (Num (of_int b)) = Num (of_int (a + b))"
  using fl_of_int [of "a + b"] by simp

lemma neighbors_integer:
  assumes c: "cx c = Num (of_int a)" "cy c = Num (of_int b)" "cz c = Num (of_int d)"
      and small: "\<bar>a\<bar> < 2 ^ 52" "\<bar>b\<bar> < 2 ^ 52" "\<bar>d\<bar> < 2 ^ 52"
      and k: "k \<in> set (getNeighboringChunks c 1)"
  shows "integer_key k"
proof -
  have one: "integer_index (fadd (Num (of_int u)) (Num (of_int v)))"
    if "\<bar>u\<bar> < 2 ^ 52" "v \<in> set [- 1..1]" for u v
  proof -
    from that have uv: "\<bar>u + v\<bar> \<le> 2 ^ 53" by auto
    have "fadd (Num (of_int u)) (Num (of_int v)) = Num (of_int (u + v))"
      using uv by (rule fadd_of_int)
    then show ?thesis using integer_index_of_int [OF uv] by (simp only:)
  qed
  from k obtain i j l where "i \<in> set [- 1..1]" "j \<in> set [- 1..1]" "l \<in> set [- 1..1]"
    "k = ChunkUtils_create (layerId c) (fadd (cx c) (Num (of_int i)))
           (fadd (cy c) (Num (of_int j))) (fadd (cz c) (Num (of_int l)))"
    by (auto simp: getNeighboringChunks_def)
  then show ?thesis
    using one [OF small(1)] one [OF small(2)] one [OF small(3)]
    by (simp add: integer_key_def ChunkUtils_create_def c)
qed

subsection \<open>The scene with equal distances\<close>

lemma floor_minus_one: "\<lfloor>- 1 :: real\<rfloor> = - 1"
  by (simp add: floor_eq_iff)

lemma len2: "Vec3_length (vec3 2 0 0) = Num 2"
  by (simp add: Vec3_length_def vec3_def fl_grid)

lemma upto_small: "[0..0] = [0::int]" "[0..1] = [0, 1::int]" "[- 1..1] = [- 1, 0, 1::int]"
  by (simp_all add: upto.simps)

lemma tie_dynamic:
  "checkDynamicSolid tie_world unit_box (vec3 2 0 0) ''obstacle''
     = \<lparr>hit = True, point = vec3 1 0 0, normal = vec3 (- 1) 0 0, distance = Num 1,
        entityId = Some ''obstacle''\<rparr>"
  by (simp add: checkDynamicSolid_def tie_world_def getContract_def unit_box_def vec3_def
      getEntityAABB_def Vec3_add_def Vec3_subtract_def Vec3_multiply_def Vec3_length_def
      intersectSegmentAABB_def Let_def sweep_miss_def fsub_def fl_grid slab_epsilon_value
      gt_def ge_def le_def eq_num_def fmin_def fmax_def)

lemma tie_static:
  "fst (checkStaticSolids unit_box (vec3 2 0 0) origin_key now (chunkManager tie_system))
     = \<lparr>hit = True, point = vec3 (3 / 2) (- 1 / 2) (- 1 / 2), normal = vec3 0 1 0,
        distance = Num 1, entityId = None\<rparr>"
  by (simp add: checkStaticSolids_def tie_system_def getChunk_def origin_chunk_def Let_def
      unit_box_def vec3_def Vec3_add_def Vec3_length_def js_trunc_def isSolid_def
      fl_grid ceiling_def floor_minus_one grid_range_def fmax_def fmin_def upto_small)

lemma tie_start_key: "keyFromPos initialLayers ''default'' (vec3 0 0 0) None = origin_key"
  by (simp add: keyFromPos_def initialLayers_def getChunkSize_def num_or_def defaultLayer_def
      DEFAULT_CHUNK_SIZE_def CHUNK_HEIGHT_def worldToChunk_def vec3_def ChunkUtils_create_def
      origin_key_def truthy_def fl_grid)

lemma tie_end_key: "keyFromPos initialLayers ''default'' (vec3 2 0 0) None = origin_key"
  by (simp add: keyFromPos_def initialLayers_def getChunkSize_def num_or_def defaultLayer_def
      DEFAULT_CHUNK_SIZE_def CHUNK_HEIGHT_def worldToChunk_def vec3_def ChunkUtils_create_def
      origin_key_def truthy_def fl_grid)

lemma origin_key_integer: "integer_key origin_key"
  using integer_index_of_int [of 0] by (simp add: integer_key_def origin_key_def)

lemma origin_neighbors_integer: "k \<in> set (getNeighboringChunks origin_key 1) \<Longrightarrow> integer_key k"
  using neighbors_integer [of origin_key 0 0 0 k] by (simp add: origin_key_def)

lemma tie_chunks_integer:
  assumes "k \<in> set (movement_chunks initialLayers (vec3 0 0 0) (vec3 2 0 0))"
  shows "integer_key k"
proof -
  from assms have "k \<in> set (origin_key # origin_key # getNeighboringChunks origin_key 1)"
    unfolding movement_chunks_def Let_def tie_start_key tie_end_key
    by (simp only: set_add_fold_set) simp
  then show ?thesis using origin_key_integer origin_neighbors_integer by auto
qed

lemma tie_chunks:
  "getChunksForMovement initialLayers (vec3 0 0 0) (vec3 2 0 0)
     = Inr (movement_chunks initialLayers (vec3 0 0 0) (vec3 2 0 0))"
  by (rule getChunksForMovement_integer) (rule tie_chunks_integer)

lemma foldl_set_add_Cons: "\<exists>rest. foldl set_add (a # acc) xs = a # rest"
proof (induction xs arbitrary: acc)
  case Nil
  then show ?case by simp
next
  case (Cons b xs)
  obtain acc' where "set_add (a # acc) b = a # acc'"
    by (cases "b \<in> set (a # acc)") (auto simp: set_add_def)
  with Cons.IH [of acc'] show ?case by simp
qed

lemma movement_chunks_head:
  "\<exists>rest. movement_chunks reg startPos endPos = keyFromPos reg ''default'' startPos None # rest"
proof -
  let ?s = "keyFromPos reg ''default'' startPos None"
  let ?tl = "keyFromPos reg ''default'' endPos None # getNeighboringChunks ?s 1"
  have h: "set_add [] ?s = [?s]" by (simp add: set_add_def)
  have "movement_chunks reg startPos endPos = foldl set_add (set_add [] ?s) ?tl"
    unfolding movement_chunks_def Let_def by (simp only: foldl_Cons)
  then have "movement_chunks reg startPos endPos = foldl set_add [?s] ?tl"
    by (simp only: h)
  then show ?thesis
    using foldl_set_add_Cons [of ?s "[]" ?tl] by (simp only:)
qed

lemma tie_static_other:
  assumes "default_key k" "integer_key k" "k \<noteq> origin_key"
  shows "\<not> hit (fst (checkStaticSolids unit_box (vec3 2 0 0) k now (chunkManager tie_system)))"
proof -
  have "default_key origin_key" by (simp add: default_key_def origin_key_def)
  with assms origin_key_integer
  have "ChunkUtils_toString k \<noteq> ChunkUtils_toString origin_key"
    using toString_inj_integer by (auto simp: inj_on_def)
  then show ?thesis
    by (simp add: checkStaticSolids_def tie_system_def getChunk_def Let_def no_hit_def)
qed

lemma tie_statics_only:
  assumes "c \<in> set (static_candidates unit_box (vec3 2 0 0) now (chunkManager tie_system)
                      (movement_chunks initialLayers (vec3 0 0 0) (vec3 2 0 0)))" "hit c"
  shows "c = tie_static_hit"
proof -
  from assms(1) obtain k where k: "k \<in> set (movement_chunks initialLayers (vec3 0 0 0) (vec3 2 0 0))"
    "c = fst (checkStaticSolids unit_box (vec3 2 0 0) k now (chunkManager tie_system))"
    by (auto simp: static_candidates_def)
  have "k = origin_key"
    using tie_static_other [OF movement_chunks_default [OF k(1)] tie_chunks_integer [OF k(1)]]
      assms(2) k(2) by auto
  with k(2) show ?thesis by (simp add: tie_static tie_static_hit_def)
qed

lemma tie_statics_fold:
  "foldl closer
     \<lparr>hit = False, point = vec3 2 0 0, normal = vec3 0 1 0, distance = Num 2, entityId = None\<rparr>
     (static_candidates unit_box (vec3 2 0 0) now (chunkManager tie_system)
        (movement_chunks initialLayers (vec3 0 0 0) (vec3 2 0 0)))
   = tie_static_hit"
proof -
  obtain rest where ks: "movement_chunks initialLayers (vec3 0 0 0) (vec3 2 0 0) = origin_key # rest"
    using movement_chunks_head [of initialLayers "vec3 0 0 0" "vec3 2 0 0"]
    by (auto simp: tie_start_key)
  have keep: "foldl closer tie_static_hit
                (static_candidates unit_box (vec3 2 0 0) now (chunkManager tie_system) rest)
              = tie_static_hit"
  proof (rule foldl_closer_keep)
    fix d assume d: "d \<in> set (static_candidates unit_box (vec3 2 0 0) now (chunkManager tie_system) rest)"
      and h: "hit d"
    then have "d \<in> set (static_candidates unit_box (vec3 2 0 0) now (chunkManager tie_system)
                          (movement_chunks initialLayers (vec3 0 0 0) (vec3 2 0 0)))"
      by (simp add: ks static_candidates_def)
    from tie_statics_only [OF this h] have "d = tie_static_hit" .
    then show "\<not> lt (distance d) (distance tie_static_hit)" by (simp add: lt_irrefl)
  qed
  show ?thesis
    using keep by (simp add: ks static_candidates_def tie_static closer_def tie_static_hit_def)
qed

lemma tie_dynamics:
  "dynamic_candidates tie_world unit_box (vec3 2 0 0) ''mobile-entity''
     = [\<lparr>hit = True, point = vec3 1 0 0, normal = vec3 (- 1) 0 0, distance = Num 1,
         entityId = Some ''obstacle''\<rparr>]"
proof -
  have "removeAll ''mobile-entity''
          (foldl set_add [] (getEntitiesWithContract tie_world ''solidity'')) = [''obstacle'']"
    by (simp add: tie_world_def getEntitiesWithContract_def set_add_def)
  then show ?thesis by (simp add: dynamic_candidates_def tie_dynamic)
qed

lemma tie_box: "getEntityAABB unit_box (vec3 0 0 0) = unit_box"
  by (simp add: getEntityAABB_def unit_box_def vec3_def Vec3_add_def fl_grid)

lemma tie_displacement: "Vec3_subtract (vec3 2 0 0) (vec3 0 0 0) = vec3 2 0 0"
  by (simp add: Vec3_subtract_def vec3_def fsub_def fl_grid)

lemma tie_sweep:
  "returned (performSweptAABB ''mobile-entity'' (vec3 0 0 0) (vec3 2 0 0) unit_box now tie_system)
     = Some tie_static_hit"
proof -
  have sys: "layerRegistry tie_system = initialLayers" "ecsWorld tie_system = tie_world"
    by (simp_all add: tie_system_def)
  have ks: "getChunksForMovement (layerRegistry tie_system) (vec3 0 0 0) (vec3 2 0 0)
              = Inr (movement_chunks initialLayers (vec3 0 0 0) (vec3 2 0 0))"
    by (simp add: sys tie_chunks)
  show ?thesis
    by (simp add: performSweptAABB_eq [OF ks] returned_def tie_box tie_displacement sys len2
        tie_statics_fold tie_dynamics closer_def tie_static_hit_def)
qed

lemma tie_attemptMove:
  "map_option blockedReason
     (returned (attemptMove ''mobile-entity'' (vec3 2 0 0) (Num (1 / 2)) 0 tie_system))
     = Some (Some ''Blocked by solid'')"
proof -
  have m: "getContract (ecsWorld tie_system) ''mobile-entity'' ''mobility''
             = Some (Mobility (vec3 0 0 0) None (Some (Num 10)) None)"
    and sh: "getContract (ecsWorld tie_system) ''mobile-entity'' ''shape''
             = Some (Shape unit_box (Some ''box''))"
    by (simp_all add: tie_system_def tie_world_def getContract_def)
  have pp: "Vec3_add (vec3 0 0 0)
                (Vec3_multiply (Vec3_normalize (vec3 2 0 0))
                   (fmin (Num 2) (fmul (num_or (Some (Num 10)) (Num 5)) (Num (1 / 2)))))
              = vec3 2 0 0"
    by (simp add: Vec3_normalize_def len2 Let_def num_or_def truthy_def eq_num_def fmin_def
        fl_grid)
       (simp add: Vec3_multiply_def Vec3_add_def vec3_def fl_grid)
  obtain r sys' where
    sw: "performSweptAABB ''mobile-entity'' (vec3 0 0 0) (vec3 2 0 0) unit_box 0 tie_system
           = Returns r sys'"
    using tie_sweep [of 0] by (cases "performSweptAABB ''mobile-entity'' (vec3 0 0 0) (vec3 2 0 0) unit_box 0 tie_system") (auto simp: returned_def)
  with tie_sweep [of 0] have r: "r = tie_static_hit" by (simp add: returned_def)
  show ?thesis
    by (simp add: attemptMove_def m sh tie_displacement len2 COLLISION_EPSILON_value Let_def pp
        sw r tie_static_hit_def returned_def)
qed

text \<open>
  C4 (amended). When \<open>getChunksForMovement\<close> throws, so does \<open>performSweptAABB\<close>.
  Otherwise it returns, and what it reports is this: a reported hit is one of the
  candidates (static-grid candidates of the affected chunks, then dynamic-entity
  candidates) and lies strictly closer than the full displacement; no candidate hit is
  closer than the reported distance; when it reports no hit, no candidate hit is closer
  than the full displacement. Ties go to the candidate examined first: when a
  static-grid hit closer than the displacement is at the least distance among all
  candidate hits, also when a dynamic hit is at exactly the same distance, the reported
  collision is a static one and carries no entity id.
\<close>

theorem swept_collision_closest:
  "(getChunksForMovement (layerRegistry sys) startPos endPos = Inl err \<longrightarrow>
      performSweptAABB e startPos endPos sb now sys = Throws err sys)
   \<and> (getChunksForMovement (layerRegistry sys) startPos endPos = Inr ks \<longrightarrow>
      (\<exists>r sys'. performSweptAABB e startPos endPos sb now sys = Returns r sys'
         \<and> (let D = Vec3_subtract endPos startPos;
                 A = getEntityAABB sb startPos;
                 statics = static_candidates A D now (chunkManager sys) ks;
                 dynamics = dynamic_candidates (ecsWorld sys) A D e
             in (hit r \<longrightarrow> r \<in> set (statics @ dynamics) \<and> lt (distance r) (Vec3_length D))
              \<and> (\<not> hit r \<longrightarrow>
                   (\<forall>c \<in> set (statics @ dynamics). hit c \<longrightarrow> \<not> lt (distance c) (Vec3_length D)))
              \<and> (\<forall>c \<in> set (statics @ dynamics). hit c \<longrightarrow> \<not> lt (distance c) (distance r))
              \<and> (\<forall>s \<in> set statics.
                    hit s \<and> lt (distance s) (Vec3_length D)
                    \<and> (\<forall>c \<in> set (statics @ dynamics). hit c \<longrightarrow> \<not> lt (distance c) (distance s))
                    \<longrightarrow> r \<in> set statics \<and> entityId r = None))))"
  using performSweptAABB_throws [of sys startPos endPos err e sb now]
    sweep_closest [of sys startPos endPos ks e sb now]
  by blast

text \<open>
  C4, witness: in the scene with both obstacles the sweep returns, and the static-grid
  hit of the origin chunk is at the least distance among the candidate hits, so the
  reported collision is a static one.
\<close>

theorem swept_collision_closest_witness:
  "\<exists>r sys'. performSweptAABB ''mobile-entity'' (vec3 0 0 0) (vec3 2 0 0) unit_box 0 tie_system
                = Returns r sys'
     \<and> hit r \<and> entityId r = None \<and> le (distance r) (Num 1)"
proof -
  let ?ks = "movement_chunks initialLayers (vec3 0 0 0) (vec3 2 0 0)"
  let ?statics = "static_candidates unit_box (vec3 2 0 0) 0 (chunkManager tie_system) ?ks"
  let ?dynamics = "dynamic_candidates tie_world unit_box (vec3 2 0 0) ''mobile-entity''"
  have sy: "layerRegistry tie_system = initialLayers" "ecsWorld tie_system = tie_world"
    by (simp_all add: tie_system_def)
  have ks: "getChunksForMovement (layerRegistry tie_system) (vec3 0 0 0) (vec3 2 0 0) = Inr ?ks"
    by (simp add: sy tie_chunks)
  from swept_collision_closest
         [of tie_system "vec3 0 0 0" "vec3 2 0 0" _ "''mobile-entity''" unit_box 0 ?ks] ks
  obtain r sys' where
    run: "performSweptAABB ''mobile-entity'' (vec3 0 0 0) (vec3 2 0 0) unit_box 0 tie_system
            = Returns r sys'"
    and isin: "hit r \<longrightarrow> r \<in> set (?statics @ ?dynamics) \<and> lt (distance r) (Num 2)"
    and nohit: "\<not> hit r \<longrightarrow> (\<forall>c \<in> set (?statics @ ?dynamics). hit c \<longrightarrow> \<not> lt (distance c) (Num 2))"
    and least: "\<forall>c \<in> set (?statics @ ?dynamics). hit c \<longrightarrow> \<not> lt (distance c) (distance r)"
    and tie: "\<forall>s \<in> set ?statics.
                hit s \<and> lt (distance s) (Num 2)
                \<and> (\<forall>c \<in> set (?statics @ ?dynamics). hit c \<longrightarrow> \<not> lt (distance c) (distance s))
                \<longrightarrow> r \<in> set ?statics \<and> entityId r = None"
    unfolding Let_def tie_box tie_displacement sy len2 by blast
  obtain rest where ko: "?ks = origin_key # rest"
    using movement_chunks_head [of initialLayers "vec3 0 0 0" "vec3 2 0 0"]
    by (auto simp: tie_start_key)
  have sin: "tie_static_hit \<in> set ?statics"
    by (simp add: ko static_candidates_def tie_static tie_static_hit_def)
  have all: "\<not> lt (distance c) (distance tie_static_hit)"
    if "c \<in> set (?statics @ ?dynamics)" "hit c" for c
  proof (cases "c \<in> set ?statics")
    case True
    from tie_statics_only [OF True that(2)] show ?thesis by (simp add: lt_irrefl)
  next
    case False
    with that(1) have "c \<in> set ?dynamics" by simp
    then show ?thesis by (simp add: tie_dynamics tie_static_hit_def)
  qed
  have sh: "hit tie_static_hit" "lt (distance tie_static_hit) (Num 2)"
    "distance tie_static_hit = Num 1"
    by (simp_all add: tie_static_hit_def)
  from tie sin sh all have e: "entityId r = None" by blast
  from nohit sin sh have h: "hit r" by fastforce
  from least sin sh have d1: "\<not> lt (Num 1) (distance r)" by fastforce
  from isin h have "lt (distance r) (Num 2)" by simp
  then have "distance r \<noteq> NaN" using lt_not_NaN by blast
  with d1 have d: "le (distance r) (Num 1)"
    using lt_total [of "distance r" "Num 1"] by (auto simp: le_def eq_num_def)
  from run e h d show ?thesis by blast
qed

text \<open>
  C4, counterexample: the mover asks for \<open>(2,0,0)\<close> with \<open>dt = 0.5\<close>. The static
  grid of the origin chunk and the solid entity \<open>obstacle\<close> both give a hit at distance
  exactly 1, and the result is blocked by the solid grid: the reason names no entity.
\<close>

theorem swept_collision_closest_counterexample:
  "map_option blockedReason
     (returned (attemptMove ''mobile-entity'' (vec3 2 0 0) (Num (1 / 2)) 0 tie_system))
     = Some (Some ''Blocked by solid'')
   \<and> checkDynamicSolid tie_world unit_box (vec3 2 0 0) ''obstacle''
     = \<lparr>hit = True, point = vec3 1 0 0, normal = vec3 (- 1) 0 0, distance = Num 1,
        entityId = Some ''obstacle''\<rparr>
   \<and> fst (checkStaticSolids unit_box (vec3 2 0 0) origin_key 0 (chunkManager tie_system))
     = \<lparr>hit = True, point = vec3 (3 / 2) (- 1 / 2) (- 1 / 2), normal = vec3 0 1 0,
        distance = Num 1, entityId = None\<rparr>"
  by (intro conjI) (rule tie_attemptMove, rule tie_dynamic, rule tie_static)

section \<open>Movement: \<open>attemptMove\<close>\<close>

lemma sublist_mobility: "sublist ''mobility'' ''No mobility contract''"
  unfolding sublist_def by (rule exI [of _ "''No ''"], rule exI [of _ "'' contract''"]) simp

lemma sublist_shape: "sublist ''shape'' ''No shape contract''"
  unfolding sublist_def by (rule exI [of _ "''No ''"], rule exI [of _ "'' contract''"]) simp

text \<open>
  C7. \<open>attemptMove\<close> on an entity without a mobility contract returns \<open>ok = false\<close>,
  the position \<open>(0,0,0)\<close> and the reason \<open>No mobility contract\<close>, which contains
  \<open>mobility\<close>; on an entity with a mobility but without a shape contract it returns
  \<open>ok = false\<close>, the entity's current position and the reason \<open>No shape contract\<close>,
  which contains \<open>shape\<close>.
\<close>

theorem attemptMove_missing_components:
  "(getContract (ecsWorld sys) e ''mobility'' = None \<longrightarrow>
      attemptMove e want dt now sys
        = Returns \<lparr>ok = False, result_position = vec3 0 0 0,
                   blockedReason = Some ''No mobility contract'', collisionNormal = None\<rparr> sys)
   \<and> (getContract (ecsWorld sys) e ''mobility'' = Some (Mobility p v ms acc)
        \<and> getContract (ecsWorld sys) e ''shape'' = None \<longrightarrow>
      attemptMove e want dt now sys
        = Returns \<lparr>ok = False, result_position = p,
                   blockedReason = Some ''No shape contract'', collisionNormal = None\<rparr> sys)
   \<and> sublist ''mobility'' ''No mobility contract''
   \<and> sublist ''shape'' ''No shape contract''"
  by (simp add: attemptMove_def sublist_mobility sublist_shape)

text \<open>C7, witness: the two entities of the repository's requirement tests.\<close>

theorem attemptMove_missing_components_witness:
  "attemptMove ''no-mobility'' (vec3 1 0 0) (Num (1 / 10)) 0 only_shape_system
     = Returns \<lparr>ok = False, result_position = vec3 0 0 0,
                blockedReason = Some ''No mobility contract'', collisionNormal = None\<rparr>
         only_shape_system
   \<and> attemptMove ''no-shape'' (vec3 1 0 0) (Num (1 / 10)) 0 only_mobility_system
     = Returns \<lparr>ok = False, result_position = vec3 3 4 5,
                blockedReason = Some ''No shape contract'', collisionNormal = None\<rparr>
         only_mobility_system"
proof -
  have h1: "getContract (ecsWorld only_shape_system) ''no-mobility'' ''mobility'' = None"
    by (simp add: only_shape_system_def getContract_def)
  have h2: "getContract (ecsWorld only_mobility_system) ''no-shape'' ''mobility''
              = Some (Mobility (vec3 3 4 5) None (Some (Num 5)) None)"
           "getContract (ecsWorld only_mobility_system) ''no-shape'' ''shape'' = None"
    by (simp_all add: only_mobility_system_def getContract_def)
  from attemptMove_missing_components
         [of only_shape_system "''no-mobility''" "vec3 1 0 0" "Num (1 / 10)" 0] h1
       attemptMove_missing_components
         [of only_mobility_system "''no-shape''" "vec3 1 0 0" "Num (1 / 10)" 0 "vec3 3 4 5" None
            "Some (Num 5)" None]
       h2
  show ?thesis by simp
qed

lemma attemptMove_cases:
  "(\<exists>r cm'. attemptMove e want dt now sys = Returns r (sys\<lparr>chunkManager := cm'\<rparr>))
   \<or> attemptMove e want dt now sys = Throws InvalidChunkKey sys"
proof -
  have same: "sys\<lparr>chunkManager := chunkManager sys\<rparr> = sys" by simp
  have ret: "\<exists>r cm'. Returns a sys = Returns r (sys\<lparr>chunkManager := cm'\<rparr>)" for a :: MoveResult
    using same by (metis)
  show ?thesis
  proof (cases "getContract (ecsWorld sys) e ''mobility''")
    case None
    then show ?thesis using ret by (simp add: attemptMove_def)
  next
    case (Some m)
    show ?thesis
    proof (cases m)
      case (Mobility p v ms acc)
      show ?thesis
      proof (cases "getContract (ecsWorld sys) e ''shape''")
        case None
        with Some Mobility show ?thesis using ret by (simp add: attemptMove_def)
      next
        case (Some s)
        note shp = Some
        show ?thesis
        proof (cases s)
          case (Shape sb g)
          let ?proposed = "Vec3_add p (Vec3_multiply (Vec3_normalize (Vec3_subtract want p))
                         (fmin (Vec3_length (Vec3_subtract want p)) (fmul (num_or ms (Num 5)) dt)))"
          from performSweptAABB_cases [of e p ?proposed sb now sys]
          show ?thesis
          proof
            assume "performSweptAABB e p ?proposed sb now sys = Throws InvalidChunkKey sys"
            with \<open>getContract (ecsWorld sys) e ''mobility'' = Some m\<close> Mobility shp Shape ret
            show ?thesis by (simp add: attemptMove_def Let_def)
          next
            assume "\<exists>c cm'. performSweptAABB e p ?proposed sb now sys
                              = Returns c (sys\<lparr>chunkManager := cm'\<rparr>)"
            then obtain c cm' where
              "performSweptAABB e p ?proposed sb now sys = Returns c (sys\<lparr>chunkManager := cm'\<rparr>)"
              by blast
            with \<open>getContract (ecsWorld sys) e ''mobility'' = Some m\<close> Mobility shp Shape ret
            show ?thesis by (auto simp add: attemptMove_def Let_def)
          qed
        qed (use \<open>getContract (ecsWorld sys) e ''mobility'' = Some m\<close> Mobility shp ret
              in \<open>simp_all add: attemptMove_def\<close>)
      qed
    qed (use Some ret in \<open>simp_all add: attemptMove_def\<close>)
  qed
qed

text \<open>
  C10. \<open>attemptMove\<close> either returns or throws \<open>Invalid chunk key\<close>; it never spins.
  When it returns, the entity store after the call is the store before it: no entity
  and no component changes, in particular the mover's mobility (position and velocity)
  is the same before and after, and only the chunk manager may have changed, by the
  chunk lookups of the static test. When it throws, nothing at all has changed.
  Writing the position is left to \<open>moveEntity\<close> and the other callers.
\<close>

theorem attemptMove_readonly:
  "(\<exists>r sys'. attemptMove e want dt now sys = Returns r sys'
      \<and> ecsWorld sys' = ecsWorld sys
      \<and> layerRegistry sys' = layerRegistry sys
      \<and> getContract (ecsWorld sys') e ''mobility'' = getContract (ecsWorld sys) e ''mobility'')
   \<or> attemptMove e want dt now sys = Throws InvalidChunkKey sys"
  using attemptMove_cases [of e want dt now sys] by auto


end
